theory Spec2Isabelle
  imports Main
begin

section \<open>Values, exceptions and outcomes\<close>

text \<open>
  The workflow state of \<^verbatim>\<open>workflow_engine.py\<close> is a Python dict from string keys to
  dynamically typed values. The values are modelled by a small datatype; a dict whose
  order does not matter is a map, a dict literal handed around by value is an
  association list.
\<close>

datatype pyval =
    PNone
  | PBool bool
  | PInt int
  | PStr string
  | PList "pyval list"

type_synonym state = "string \<rightharpoonup> pyval"

text \<open>
  Exceptions are values. \<open>ValueError\<close> and \<open>KeyError\<close> are the ones the engines raise
  themselves (\<open>KeyError\<close> carries the missing key). A caller-supplied callable that
  raises an exception \<open>e\<close> is modelled as returning \<open>Inl (str e)\<close>; the engine sees it as
  \<open>OperationError\<close> when a node operation (or tool) raised it and as \<open>PredicateError\<close>
  when an edge predicate raised it. Only the class \<open>Exception\<close> is modelled, which is
  what every handler of the source catches.
\<close>

datatype exn =
    ValueError string
  | KeyError string
  | OperationError string
  | PredicateError string

text \<open>
  A method call ends by returning a value or by raising. Methods of a mutable object
  are modelled as functions that return the object after the call together with the
  outcome, so that what an aborted call left behind is part of the model.
\<close>

datatype 'a outcome = Raised exn | Returned 'a

text \<open>
  \<open>str(e)\<close>. For a \<open>KeyError\<close> Python prints the \<open>repr\<close> of the key, which for a key
  without quotes or escapes is the key between single quotes.
\<close>

fun exn_str :: "exn \<Rightarrow> string" where
  "exn_str (ValueError m) = m"
| "exn_str (KeyError k) = [CHR 0x27] @ k @ [CHR 0x27]"
| "exn_str (OperationError m) = m"
| "exn_str (PredicateError m) = m"

section \<open>Discipline A: \<^verbatim>\<open>workflow_engine.py\<close>\<close>

subsection \<open>Data model\<close>

datatype NodeStatus = PENDING | RUNNING | COMPLETED | FAILED

text \<open>
  Class \<open>Node\<close>. The attribute \<open>function\<close> of the source is the field \<open>func\<close> here.
\<close>

record Node =
  node_id :: string
  func :: "state \<Rightarrow> string + state"
  name :: string
  status :: NodeStatus
  error :: "string option"

text \<open>\<open>Node.__init__\<close>: \<open>name or node_id\<close> takes the id when the name is absent or empty.\<close>

definition Node_init :: "string \<Rightarrow> (state \<Rightarrow> string + state) \<Rightarrow> string option \<Rightarrow> Node" where
  "Node_init nid f nm =
     \<lparr>node_id = nid, func = f,
      name = (case nm of None \<Rightarrow> nid | Some n \<Rightarrow> if n = [] then nid else n),
      status = PENDING, error = None\<rparr>"

text \<open>
  \<open>Node.execute\<close>: the status becomes \<open>RUNNING\<close>, the operation is called; on return
  the status is \<open>COMPLETED\<close>, on an exception the status is \<open>FAILED\<close>, the message is
  stored and the exception is raised again.
\<close>

definition Node_execute :: "Node \<Rightarrow> state \<Rightarrow> Node \<times> state outcome" where
  "Node_execute node st =
     (case func (node\<lparr>status := RUNNING\<rparr>) st of
        Inr result \<Rightarrow> (node\<lparr>status := COMPLETED\<rparr>, Returned result)
      | Inl msg \<Rightarrow> (node\<lparr>status := FAILED, error := Some msg\<rparr>, Raised (OperationError msg)))"

definition Node_reset :: "Node \<Rightarrow> Node" where
  "Node_reset node = node\<lparr>status := PENDING, error := None\<rparr>"

text \<open>Class \<open>Edge\<close>. A predicate returns a truth value or raises.\<close>

record Edge =
  from_node :: string
  to_node :: string
  condition :: "(state \<Rightarrow> string + bool) option"

text \<open>\<open>Edge.should_traverse\<close>: no handler surrounds the call of the predicate.\<close>

definition should_traverse :: "Edge \<Rightarrow> state \<Rightarrow> bool outcome" where
  "should_traverse e st =
     (case condition e of
        None \<Rightarrow> Returned True
      | Some p \<Rightarrow> (case p st of Inl msg \<Rightarrow> Raised (PredicateError msg) | Inr b \<Rightarrow> Returned b))"

datatype WorkflowStatus = CREATED | WRUNNING | WCOMPLETED | WFAILED

text \<open>
  One dict of \<open>execution_history\<close>. The key \<open>error\<close> is present only in a failed
  entry. The key \<open>timestamp\<close> holds the wall clock and is left out, as are the
  attributes \<open>workflow_id\<close>, \<open>name\<close>, \<open>created_at\<close> and \<open>updated_at\<close> of the workflow:
  they come from the clock and from \<open>uuid4\<close>, and nothing in the traversal reads them.
\<close>

record entry =
  entry_node_id :: string
  entry_node_name :: string
  entry_status :: string
  entry_error :: "string option"

record Workflow =
  nodes :: "string \<rightharpoonup> Node"
  edges :: "Edge list"
  wstate :: state
  wstatus :: WorkflowStatus
  start_node :: "string option"
  end_nodes :: "string list"
  execution_history :: "entry list"

definition Workflow_init :: Workflow where
  "Workflow_init =
     \<lparr>nodes = Map.empty, edges = [], wstate = Map.empty, wstatus = CREATED,
      start_node = None, end_nodes = [], execution_history = []\<rparr>"

subsection \<open>Building the graph\<close>

definition add_node :: "Workflow \<Rightarrow> Node \<Rightarrow> Workflow \<times> unit outcome" where
  "add_node w node = (w\<lparr>nodes := (nodes w)(node_id node \<mapsto> node)\<rparr>, Returned ())"

definition add_edge :: "Workflow \<Rightarrow> Edge \<Rightarrow> Workflow \<times> unit outcome" where
  "add_edge w e =
     (if nodes w (from_node e) = None
        then (w, Raised (ValueError (''Source node '' @ [CHR 0x27] @ from_node e @ [CHR 0x27] @ '' not found'')))
      else if nodes w (to_node e) = None
        then (w, Raised (ValueError (''Target node '' @ [CHR 0x27] @ to_node e @ [CHR 0x27] @ '' not found'')))
      else (w\<lparr>edges := edges w @ [e]\<rparr>, Returned ()))"

definition set_entry_point :: "Workflow \<Rightarrow> string \<Rightarrow> Workflow \<times> unit outcome" where
  "set_entry_point w nid =
     (if nodes w nid = None
        then (w, Raised (ValueError (''Node '' @ [CHR 0x27] @ nid @ [CHR 0x27] @ '' not found'')))
      else (w\<lparr>start_node := Some nid\<rparr>, Returned ()))"

definition add_end_node :: "Workflow \<Rightarrow> string \<Rightarrow> Workflow \<times> unit outcome" where
  "add_end_node w nid =
     (if nodes w nid = None
        then (w, Raised (ValueError (''Node '' @ [CHR 0x27] @ nid @ [CHR 0x27] @ '' not found'')))
      else if nid \<notin> set (end_nodes w)
        then (w\<lparr>end_nodes := end_nodes w @ [nid]\<rparr>, Returned ())
      else (w, Returned ()))"

subsection \<open>Traversal\<close>

text \<open>
  \<open>Workflow.get_next_nodes\<close>: the loop over \<open>self.edges\<close>, in declaration order. An
  exception of a predicate leaves the loop and the method.
\<close>

fun next_nodes_loop :: "Edge list \<Rightarrow> string \<Rightarrow> state \<Rightarrow> string list \<Rightarrow> string list outcome" where
  "next_nodes_loop [] current_node_id st next_nodes = Returned next_nodes"
| "next_nodes_loop (e # es) current_node_id st next_nodes =
     (if from_node e = current_node_id then
        (case should_traverse e st of
           Raised x \<Rightarrow> Raised x
         | Returned b \<Rightarrow>
             if b then next_nodes_loop es current_node_id st (next_nodes @ [to_node e])
             else next_nodes_loop es current_node_id st next_nodes)
      else next_nodes_loop es current_node_id st next_nodes)"

definition get_next_nodes :: "Workflow \<Rightarrow> string \<Rightarrow> string list outcome" where
  "get_next_nodes w current_node_id = next_nodes_loop (edges w) current_node_id (wstate w) []"

text \<open>
  The body of \<open>for node_id in current_nodes\<close> in \<open>Workflow.execute\<close> for a node that
  is not yet visited, from \<open>node = self.nodes[node_id]\<close> on. \<open>self.nodes[node_id]\<close>
  raises \<open>KeyError\<close> for an unknown id. A history entry is appended in both branches
  of the inner \<open>try\<close>, that is once for every call of \<open>Node.execute\<close>. The result
  holds the ids by which \<open>next_nodes\<close> is extended: none after a terminal node, where
  the body ends with \<open>continue\<close>.
\<close>

definition visit_node :: "Workflow \<Rightarrow> string \<Rightarrow> Workflow \<times> string list outcome" where
  "visit_node w nid =
     (case nodes w nid of
        None \<Rightarrow> (w, Raised (KeyError nid))
      | Some node \<Rightarrow>
          (case Node_execute node (wstate w) of
             (node', Raised x) \<Rightarrow>
               (w\<lparr>nodes := (nodes w)(nid \<mapsto> node'),
                  execution_history := execution_history w @
                    [\<lparr>entry_node_id = nid, entry_node_name = name node,
                      entry_status = ''failed'', entry_error = Some (exn_str x)\<rparr>]\<rparr>,
                Raised x)
           | (node', Returned result) \<Rightarrow>
               (let w' = w\<lparr>nodes := (nodes w)(nid \<mapsto> node'), wstate := result,
                            execution_history := execution_history w @
                              [\<lparr>entry_node_id = nid, entry_node_name = name node,
                                entry_status = ''completed'', entry_error = None\<rparr>]\<rparr>
                in if nid \<in> set (end_nodes w') then (w', Returned [])
                   else (w', get_next_nodes w' nid))))"

text \<open>
  The loop \<open>for node_id in current_nodes\<close>, as a recursion over the frontier. It
  threads the workflow, the set \<open>visited\<close> and the list \<open>next_nodes\<close>. A visited id
  is skipped; another one is added to \<open>visited\<close> before anything else happens.
\<close>

fun run_layer :: "Workflow \<Rightarrow> string set \<Rightarrow> string list \<Rightarrow> string list
                    \<Rightarrow> Workflow \<times> string set \<times> string list outcome" where
  "run_layer w visited [] next_nodes = (w, visited, Returned next_nodes)"
| "run_layer w visited (nid # rest) next_nodes =
     (if nid \<in> visited then run_layer w visited rest next_nodes
      else
        (case visit_node w nid of
           (w', Raised x) \<Rightarrow> (w', insert nid visited, Raised x)
         | (w', Returned ids) \<Rightarrow> run_layer w' (insert nid visited) rest (next_nodes @ ids)))"

text \<open>
  The loop \<open>while current_nodes\<close>. Nothing in its text bounds the number of rounds, so
  it is a partial function: \<open>None\<close> stands for a loop that never ends.
\<close>

partial_function (option) bfs :: "Workflow \<Rightarrow> string set \<Rightarrow> string list \<Rightarrow> (Workflow \<times> unit outcome) option" where
  "bfs w visited current_nodes =
     (if current_nodes = [] then Some (w, Returned ())
      else (case run_layer w visited current_nodes [] of
              (w', visited', Raised x) \<Rightarrow> Some (w', Raised x)
            | (w', visited', Returned next_nodes) \<Rightarrow> bfs w' visited' next_nodes))"

text \<open>
  \<open>Workflow.execute\<close>. \<open>initial_state or {}\<close> is the given dict, or an empty one when
  none (or an empty one) is given. The outer handler sets the status to \<open>FAILED\<close> and
  raises the exception again.
\<close>

definition execute :: "Workflow \<Rightarrow> state option \<Rightarrow> (Workflow \<times> state outcome) option" where
  "execute w initial_state =
     (case start_node w of
        None \<Rightarrow> Some (w, Raised (ValueError ''No entry point set for workflow''))
      | Some s \<Rightarrow>
          (let w1 = w\<lparr>wstate := (case initial_state of None \<Rightarrow> Map.empty | Some s0 \<Rightarrow> s0),
                       wstatus := WRUNNING,
                       execution_history := [],
                       nodes := (\<lambda>k. map_option Node_reset (nodes w k))\<rparr>
           in (case bfs w1 {} [s] of
                 None \<Rightarrow> None
               | Some (w2, Raised x) \<Rightarrow> Some (w2\<lparr>wstatus := WFAILED\<rparr>, Raised x)
               | Some (w2, Returned u) \<Rightarrow> Some (w2\<lparr>wstatus := WCOMPLETED\<rparr>, Returned (wstate w2)))))"

subsection \<open>The traversal in single steps\<close>

text \<open>
  The two loops of \<open>Workflow.execute\<close> once more, one step at a time, so that a moment
  in the middle of a run can be named. A configuration holds the workflow, the set
  \<open>visited\<close>, what is left of \<open>current_nodes\<close> in the \<open>for\<close> loop, and
  \<open>next_nodes\<close>. \<open>begin_run\<close> is the workflow after the assignments that precede the
  loops: the state, the status \<open>RUNNING\<close>, the empty history, every node reset. One
  step is one pass through the body of the \<open>for\<close> loop (an id in \<open>visited\<close> is passed
  over, any other node is executed by \<open>visit_node\<close>) or, at the end of a frontier, the
  assignment \<open>current_nodes = next_nodes\<close>. There is no step when both lists are empty
  (the \<open>while\<close> loop is left) and none when the body raises. \<open>config_after k\<close> is the
  configuration after \<open>k\<close> steps of a call of \<open>Workflow.execute\<close>; there is none
  without an entry point.
\<close>

type_synonym config = "Workflow \<times> string set \<times> string list \<times> string list"

definition begin_run :: "Workflow \<Rightarrow> state option \<Rightarrow> Workflow" where
  "begin_run w initial_state =
     w\<lparr>wstate := (case initial_state of None \<Rightarrow> Map.empty | Some s0 \<Rightarrow> s0),
       wstatus := WRUNNING,
       execution_history := [],
       nodes := (\<lambda>k. map_option Node_reset (nodes w k))\<rparr>"

fun traverse_step :: "config \<Rightarrow> config option" where
  "traverse_step (w, visited, [], next_nodes) =
     (if next_nodes = [] then None else Some (w, visited, next_nodes, []))"
| "traverse_step (w, visited, nid # rest, next_nodes) =
     (if nid \<in> visited then Some (w, visited, rest, next_nodes)
      else
        (case visit_node w nid of
           (w', Raised x) \<Rightarrow> None
         | (w', Returned ids) \<Rightarrow> Some (w', insert nid visited, rest, next_nodes @ ids)))"

primrec config_after :: "nat \<Rightarrow> Workflow \<Rightarrow> state option \<Rightarrow> config option" where
  "config_after 0 w initial_state =
     (case start_node w of
        None \<Rightarrow> None
      | Some s \<Rightarrow> Some (begin_run w initial_state, {}, [s], []))"
| "config_after (Suc k) w initial_state =
     (case config_after k w initial_state of
        None \<Rightarrow> None
      | Some c \<Rightarrow> traverse_step c)"

section \<open>Discipline B: \<^verbatim>\<open>app/models.py\<close> and \<open>app/engine.py\<close>\<close>

subsection \<open>Data model\<close>

type_synonym pydict = "(string \<times> pyval) list"

text \<open>
  The pydantic model \<open>State\<close>: six declared fields and, by \<open>extra = "allow"\<close>, any
  further keys.
\<close>

record State =
  original_text :: string
  chunks :: "string list"
  summaries :: "string list"
  current_summary :: string
  iteration_count :: int
  logs :: "string list"
  extra :: pydict

definition State_default :: State where
  "State_default =
     \<lparr>original_text = [], chunks = [], summaries = [], current_summary = [],
      iteration_count = 0, logs = [], extra = []\<rparr>"

text \<open>
  The models \<open>Node\<close> and \<open>Edge\<close> of \<^verbatim>\<open>app/models.py\<close>; the fields carry a prefix, the
  names without it belong to Discipline A. A condition is the text of a Python
  expression.
\<close>

record ENode =
  n_id :: string
  n_name :: string
  tool_name :: string

record EEdge =
  e_from_node :: string
  e_to_node :: string
  e_condition :: "string option"

text \<open>
  What the engine calls but does not define: Python's \<open>eval\<close> of a condition with
  \<open>state\<close> bound (the truth value of the result, or the message of the exception it
  raised), the constructor \<open>State(**data)\<close> of pydantic (the validation error, or the
  state) and \<open>model_dump\<close>. They are parameters of the model.
\<close>

record externals =
  py_eval :: "string \<Rightarrow> State \<Rightarrow> string + bool"
  State_new :: "pydict \<Rightarrow> string + State"
  model_dump :: "State \<Rightarrow> pydict"

text \<open>A tool takes the state and returns a dict of updates, or raises.\<close>

type_synonym tool = "State \<Rightarrow> string + pydict"

record Engine =
  node_map :: "string \<rightharpoonup> ENode"
  eedges :: "EEdge list"
  registry :: "string \<rightharpoonup> tool"
  current_state :: State

text \<open>\<open>Engine.__init__\<close>: in the dict comprehension a later node of the same name wins.\<close>

definition Engine_init :: "ENode list \<Rightarrow> EEdge list \<Rightarrow> (string \<rightharpoonup> tool) \<Rightarrow> Engine" where
  "Engine_init ns es reg =
     \<lparr>node_map = foldl (\<lambda>m n. m(n_name n \<mapsto> n)) Map.empty ns,
      eedges = es, registry = reg, current_state = State_default\<rparr>"

text \<open>\<open>dict.update\<close>: a key that is present keeps its place, a new key goes to the end.\<close>

fun dict_set :: "pydict \<Rightarrow> string \<Rightarrow> pyval \<Rightarrow> pydict" where
  "dict_set [] k v = [(k, v)]"
| "dict_set ((k', v') # d) k v = (if k' = k then (k, v) # d else (k', v') # dict_set d k v)"

definition dict_update :: "pydict \<Rightarrow> pydict \<Rightarrow> pydict" where
  "dict_update d u = foldl (\<lambda>d' (k, v). dict_set d' k v) d u"

subsection \<open>The engine\<close>

text \<open>
  \<open>Engine._get_next_node_name\<close>: the loop over \<open>candidates\<close>. \<open>not edge.condition\<close>
  holds for \<open>None\<close> and for the empty text. An exception of \<open>eval\<close> is caught and the
  loop goes on with the next candidate.
\<close>

fun first_taken :: "externals \<Rightarrow> EEdge list \<Rightarrow> State \<Rightarrow> string option" where
  "first_taken ext [] st = None"
| "first_taken ext (e # es) st =
     (case e_condition e of
        None \<Rightarrow> Some (e_to_node e)
      | Some c \<Rightarrow>
          if c = [] then Some (e_to_node e)
          else (case py_eval ext c st of
                  Inr b \<Rightarrow> if b then Some (e_to_node e) else first_taken ext es st
                | Inl msg \<Rightarrow> first_taken ext es st))"

definition get_next_node_name :: "externals \<Rightarrow> Engine \<Rightarrow> string \<Rightarrow> State \<Rightarrow> string option" where
  "get_next_node_name ext eng current_node st =
     first_taken ext (filter (\<lambda>e. e_from_node e = current_node) (eedges eng)) st"

text \<open>
  \<open>Engine.run_node\<close>. The log line is appended before the tool is called. \<open>if updates\<close>
  is false for an empty dict. A validation error of pydantic is a \<open>ValueError\<close>.
\<close>

definition run_node :: "externals \<Rightarrow> Engine \<Rightarrow> string \<Rightarrow> Engine \<times> unit outcome" where
  "run_node ext eng node_name =
     (case node_map eng node_name of
        None \<Rightarrow> (eng, Raised (ValueError (''Node '' @ node_name @ '' not found'')))
      | Some node \<Rightarrow>
          (case registry eng (tool_name node) of
             None \<Rightarrow> (eng, Raised (ValueError (''Tool '' @ tool_name node @ '' not found'')))
           | Some tool_function \<Rightarrow>
               (let st = (current_state eng)\<lparr>logs := logs (current_state eng) @
                            [''Running node '' @ node_name @ '' with tool '' @ tool_name node]\<rparr>;
                    eng1 = eng\<lparr>current_state := st\<rparr>
                in (case tool_function st of
                      Inl msg \<Rightarrow> (eng1, Raised (OperationError msg))
                    | Inr updates \<Rightarrow>
                        if updates \<noteq> [] then
                          (case State_new ext (dict_update (model_dump ext st) updates) of
                             Inl msg \<Rightarrow> (eng1, Raised (ValueError msg))
                           | Inr st' \<Rightarrow> (eng1\<lparr>current_state := st'\<rparr>, Returned ()))
                        else (eng1, Returned ())))))"

definition MAX_STEPS :: nat where
  "MAX_STEPS = 10"

text \<open>
  The loop \<open>while current_node_name and steps < MAX_STEPS\<close> of \<open>Engine.execute\<close>. A
  name is false when it is \<open>None\<close> or empty. The result holds the engine, the counter
  \<open>steps\<close>, which counts the calls of \<open>run_node\<close> that returned, and the outcome.
\<close>

function run_loop :: "externals \<Rightarrow> Engine \<Rightarrow> string option \<Rightarrow> nat \<Rightarrow> Engine \<times> nat \<times> unit outcome" where
  "run_loop ext eng current_node_name steps =
     (case current_node_name of
        None \<Rightarrow> (eng, steps, Returned ())
      | Some n \<Rightarrow>
          if n \<noteq> [] \<and> steps < MAX_STEPS then
            (case run_node ext eng n of
               (eng1, Raised x) \<Rightarrow> (eng1, steps, Raised x)
             | (eng1, Returned u) \<Rightarrow>
                 run_loop ext eng1 (get_next_node_name ext eng1 n (current_state eng1)) (steps + 1))
          else (eng, steps, Returned ()))"
  by pat_completeness auto
termination
  by (relation "measure (\<lambda>(ext, eng, cur, steps). MAX_STEPS - steps)") auto

definition Engine_execute :: "externals \<Rightarrow> Engine \<Rightarrow> string \<Rightarrow> pydict \<Rightarrow> Engine \<times> pydict outcome" where
  "Engine_execute ext eng start_node_name initial_input =
     (case State_new ext initial_input of
        Inl msg \<Rightarrow> (eng, Raised (ValueError msg))
      | Inr st0 \<Rightarrow>
          (case run_loop ext (eng\<lparr>current_state := st0\<rparr>) (Some start_node_name) 0 of
             (eng1, steps, Raised x) \<Rightarrow> (eng1, Raised x)
           | (eng1, steps, Returned u) \<Rightarrow>
               (let st = (current_state eng1)\<lparr>logs := logs (current_state eng1) @
                            [if steps \<ge> MAX_STEPS then ''Maximum steps reached. Workflow terminated.''
                             else ''Workflow completed successfully.'']\<rparr>
                in (eng1\<lparr>current_state := st\<rparr>, Returned (model_dump ext st)))))"

section \<open>Notions used in the statements\<close>

text \<open>
  An edge of Discipline B is taken in a state when it has no condition (none, or the
  empty text) or when its condition evaluates to a true value without raising.
\<close>

definition edge_taken :: "externals \<Rightarrow> EEdge \<Rightarrow> State \<Rightarrow> bool" where
  "edge_taken ext e st =
     (case e_condition e of None \<Rightarrow> True | Some c \<Rightarrow> c = [] \<or> py_eval ext c st = Inr True)"

text \<open>
  The history agrees with the statuses of the nodes: a node has left the status
  \<open>PENDING\<close>, which is to say that \<open>Node.execute\<close> has been called on it since the
  last reset, exactly when its id has an entry in the history.
\<close>

definition history_matches :: "Workflow \<Rightarrow> bool" where
  "history_matches w =
     (\<forall>nid nd. nodes w nid = Some nd \<longrightarrow>
        (status nd \<noteq> PENDING) = (nid \<in> set (map entry_node_id (execution_history w))))"

text \<open>
  The condition of an edge of Discipline B raises in a state: there is a condition, it
  is not the empty text, and its evaluation ends in an exception.
\<close>

definition condition_raises :: "externals \<Rightarrow> EEdge \<Rightarrow> State \<Rightarrow> bool" where
  "condition_raises ext e st =
     (case e_condition e of None \<Rightarrow> False | Some c \<Rightarrow> c \<noteq> [] \<and> isl (py_eval ext c st))"

text \<open>
  What the two loops of \<open>Workflow.execute\<close> do from a configuration on: the rest of
  the frontier, then the frontiers that follow.
\<close>

definition rest_of_run :: "config \<Rightarrow> (Workflow \<times> unit outcome) option" where
  "rest_of_run c =
     (case c of (w, visited, current_nodes, next_nodes) \<Rightarrow>
        (case run_layer w visited current_nodes next_nodes of
           (w', visited', Raised x) \<Rightarrow> Some (w', Raised x)
         | (w', visited', Returned nxt) \<Rightarrow> bfs w' visited' nxt))"

text \<open>
  One execution of a node of Discipline B, told from the graph and the tools alone: in
  the state \<open>st\<close> the name \<open>n\<close> is that of a known node, its tool is registered, the
  tool returns on the state with the line \<open>Running node ...\<close> added to \<open>logs\<close>, and
  \<open>st'\<close> is that state when the tool returns \<open>{}\<close>, and otherwise the state that the
  constructor of \<open>State\<close> makes of the dump updated with what the tool returned.
\<close>

definition node_succeeds :: "externals \<Rightarrow> Engine \<Rightarrow> string \<Rightarrow> State \<Rightarrow> State \<Rightarrow> bool" where
  "node_succeeds ext eng n st st' =
     (case node_map eng n of
        None \<Rightarrow> False
      | Some nd \<Rightarrow>
          (case registry eng (tool_name nd) of
             None \<Rightarrow> False
           | Some t \<Rightarrow>
               (let st1 = st\<lparr>logs := logs st @
                            [''Running node '' @ n @ '' with tool '' @ tool_name nd]\<rparr>
                in (case t st1 of
                      Inl msg \<Rightarrow> False
                    | Inr updates \<Rightarrow>
                        if updates = [] then st' = st1
                        else State_new ext (dict_update (model_dump ext st1) updates) = Inr st'))))"

section \<open>Example graphs\<close>

text \<open>Operations and predicates: one returns the state it got, one returns \<open>{}\<close>, one raises.\<close>

definition op_keep :: "state \<Rightarrow> string + state" where
  "op_keep st = Inr st"

definition op_empty :: "state \<Rightarrow> string + state" where
  "op_empty st = Inr Map.empty"

definition op_boom :: "state \<Rightarrow> string + state" where
  "op_boom st = Inl ''boom''"

definition pred_boom :: "state \<Rightarrow> string + bool" where
  "pred_boom st = Inl ''bad predicate''"

text \<open>A workflow with the single node \<open>A\<close>, and an edge from \<open>A\<close> to an unknown node.\<close>

definition single_workflow :: "(state \<Rightarrow> string + state) \<Rightarrow> Workflow" where
  "single_workflow f = fst (add_node Workflow_init (Node_init ''A'' f None))"

definition dangling_edge :: Edge where
  "dangling_edge = \<lparr>from_node = ''A'', to_node = ''Z'', condition = None\<rparr>"

text \<open>The node \<open>A\<close> with an edge to itself, started at \<open>A\<close>.\<close>

definition loop_workflow :: Workflow where
  "loop_workflow =
     fst (set_entry_point
       (fst (add_edge (single_workflow op_keep)
          \<lparr>from_node = ''A'', to_node = ''A'', condition = None\<rparr>)) ''A'')"


text \<open>
  The chain of the nodes \<open>A\<close>, \<open>B\<close>, \<open>C\<close> with the edges from \<open>A\<close> to \<open>B\<close> and from
  \<open>B\<close> to \<open>C\<close>, both without a predicate, started at \<open>A\<close>, with the terminal node
  \<open>C\<close>, built by the methods of the workflow.
\<close>

definition chain_workflow ::
  "(state \<Rightarrow> string + state) \<Rightarrow> (state \<Rightarrow> string + state) \<Rightarrow> (state \<Rightarrow> string + state) \<Rightarrow> Workflow" where
  "chain_workflow fA fB fC =
     (let w1 = fst (add_node Workflow_init (Node_init ''A'' fA None));
          w2 = fst (add_node w1 (Node_init ''B'' fB None));
          w3 = fst (add_node w2 (Node_init ''C'' fC None));
          w4 = fst (add_edge w3 \<lparr>from_node = ''A'', to_node = ''B'', condition = None\<rparr>);
          w5 = fst (add_edge w4 \<lparr>from_node = ''B'', to_node = ''C'', condition = None\<rparr>);
          w6 = fst (set_entry_point w5 ''A'')
      in fst (add_end_node w6 ''C''))"

text \<open>A state with one key; the node \<open>A\<close> with an operation that returns \<open>{}\<close>.\<close>

definition state_x :: state where
  "state_x = [''x'' \<mapsto> PInt 1]"

definition drop_workflow :: Workflow where
  "drop_workflow = fst (set_entry_point (single_workflow op_empty) ''A'')"

text \<open>
  For Discipline B: a tool that returns \<open>{}\<close>; stand-ins for \<open>eval\<close> (it knows one
  condition and raises on every other text), for the constructor of \<open>State\<close> (it
  accepts the empty input) and for \<open>model_dump\<close>; an engine with the node \<open>A\<close> and an
  edge from \<open>A\<close> to \<open>A\<close> without a condition.
\<close>

definition tool_none :: tool where
  "tool_none st = Inr []"

definition plain_ext :: externals where
  "plain_ext =
     \<lparr>py_eval = (\<lambda>c st. if c = ''state.iteration_count > 1'' then Inr (iteration_count st > 1)
                          else Inl ''invalid syntax''),
      State_new = (\<lambda>d. if d = [] then Inr State_default else Inl ''validation error''),
      model_dump = (\<lambda>st. [(''iteration_count'', PInt (iteration_count st)),
                           (''logs'', PList (map PStr (logs st)))] @ extra st)\<rparr>"

definition loop_engine :: Engine where
  "loop_engine =
     Engine_init [\<lparr>n_id = ''1'', n_name = ''A'', tool_name = ''none''\<rparr>]
       [\<lparr>e_from_node = ''A'', e_to_node = ''A'', e_condition = None\<rparr>]
       [''none'' \<mapsto> tool_none]"

text \<open>
  Two edges from \<open>A\<close> to \<open>B\<close>, the first with a predicate that raises, the second
  without a predicate, started at \<open>A\<close>; what a run leaves; and the like for
  Discipline B, where the first edge has a condition that the stand-in for \<open>eval\<close>
  does not know.
\<close>

definition guard_workflow :: Workflow where
  "guard_workflow =
     (let w1 = fst (add_node Workflow_init (Node_init ''A'' op_keep None));
          w2 = fst (add_node w1 (Node_init ''B'' op_keep None));
          w3 = fst (add_edge w2 \<lparr>from_node = ''A'', to_node = ''B'', condition = Some pred_boom\<rparr>);
          w4 = fst (add_edge w3 \<lparr>from_node = ''A'', to_node = ''B'', condition = None\<rparr>)
      in fst (set_entry_point w4 ''A''))"

definition guard_engine :: Engine where
  "guard_engine =
     Engine_init [\<lparr>n_id = ''1'', n_name = ''A'', tool_name = ''none''\<rparr>,
                  \<lparr>n_id = ''2'', n_name = ''B'', tool_name = ''none''\<rparr>]
       [\<lparr>e_from_node = ''A'', e_to_node = ''A'', e_condition = Some ''state.missing > 1''\<rparr>,
        \<lparr>e_from_node = ''A'', e_to_node = ''B'', e_condition = None\<rparr>]
       [''none'' \<mapsto> tool_none]"

definition guard_workflow_after :: Workflow where
  "guard_workflow_after =
     guard_workflow\<lparr>wstate := Map.empty, wstatus := WFAILED,
       execution_history := [\<lparr>entry_node_id = ''A'', entry_node_name = ''A'',
          entry_status = ''completed'', entry_error = None\<rparr>],
       nodes := (\<lambda>k. map_option Node_reset (nodes guard_workflow k))
          (''A'' \<mapsto> \<lparr>node_id = ''A'', func = op_keep, name = ''A'',
                       status = COMPLETED, error = None\<rparr>)\<rparr>"

text \<open>
  The chain whose second operation raises, and the workflow a run from the state
  \<open>state_x\<close> holds when the traversal arrives at \<open>B\<close>.
\<close>

definition chain_fail_workflow :: Workflow where
  "chain_fail_workflow = chain_workflow op_keep op_boom op_keep"

definition chain_fail_at_B :: Workflow where
  "chain_fail_at_B =
     (begin_run chain_fail_workflow (Some state_x))
       \<lparr>nodes := (nodes (begin_run chain_fail_workflow (Some state_x)))
          (''A'' \<mapsto> \<lparr>node_id = ''A'', func = op_keep, name = ''A'',
                       status = COMPLETED, error = None\<rparr>),
        wstate := state_x,
        execution_history := [\<lparr>entry_node_id = ''A'', entry_node_name = ''A'',
          entry_status = ''completed'', entry_error = None\<rparr>]\<rparr>"

text \<open>
  The nodes \<open>A\<close>, \<open>B\<close>, \<open>C\<close> with an edge from \<open>A\<close> to \<open>B\<close> and two edges from \<open>B\<close>
  to \<open>C\<close>, the first of them with a predicate that raises, started at \<open>A\<close>; and the
  workflow a run from the empty state holds when the traversal arrives at \<open>B\<close>.
\<close>

definition late_guard_workflow :: Workflow where
  "late_guard_workflow =
     (let w1 = fst (add_node Workflow_init (Node_init ''A'' op_keep None));
          w2 = fst (add_node w1 (Node_init ''B'' op_keep None));
          w3 = fst (add_node w2 (Node_init ''C'' op_keep None));
          w4 = fst (add_edge w3 \<lparr>from_node = ''A'', to_node = ''B'', condition = None\<rparr>);
          w5 = fst (add_edge w4 \<lparr>from_node = ''B'', to_node = ''C'', condition = Some pred_boom\<rparr>);
          w6 = fst (add_edge w5 \<lparr>from_node = ''B'', to_node = ''C'', condition = None\<rparr>)
      in fst (set_entry_point w6 ''A''))"

definition late_guard_at_B :: Workflow where
  "late_guard_at_B =
     (begin_run late_guard_workflow None)
       \<lparr>nodes := (nodes (begin_run late_guard_workflow None))
          (''A'' \<mapsto> \<lparr>node_id = ''A'', func = op_keep, name = ''A'',
                       status = COMPLETED, error = None\<rparr>),
        wstate := Map.empty,
        execution_history := [\<lparr>entry_node_id = ''A'', entry_node_name = ''A'',
          entry_status = ''completed'', entry_error = None\<rparr>]\<rparr>"

text \<open>
  For Discipline B: the node \<open>A\<close> with an edge without a condition to \<open>B\<close>, which is
  not a node of the graph; and the node \<open>A\<close> with an edge without a condition whose
  target is the empty name.
\<close>

definition dangle_engine :: Engine where
  "dangle_engine =
     Engine_init [\<lparr>n_id = ''1'', n_name = ''A'', tool_name = ''none''\<rparr>]
       [\<lparr>e_from_node = ''A'', e_to_node = ''B'', e_condition = None\<rparr>]
       [''none'' \<mapsto> tool_none]"

definition blank_engine :: Engine where
  "blank_engine =
     Engine_init [\<lparr>n_id = ''1'', n_name = ''A'', tool_name = ''none''\<rparr>]
       [\<lparr>e_from_node = ''A'', e_to_node = [], e_condition = None\<rparr>]
       [''none'' \<mapsto> tool_none]"

section \<open>Discipline A: building the graph\<close>

lemma count_list_distinct:
  "distinct xs \<Longrightarrow> count_list xs x = (if x \<in> set xs then 1 else 0)"
  by (induction xs) auto

lemma distinct_Workflow_init: "distinct (end_nodes Workflow_init)"
  by (simp add: Workflow_init_def)

lemma add_end_node_distinct:
  "distinct (end_nodes w) \<Longrightarrow> distinct (end_nodes (fst (add_end_node w nid)))"
  by (simp add: add_end_node_def)

lemma add_node_end_nodes: "end_nodes (fst (add_node w n)) = end_nodes w"
  by (simp add: add_node_def)

lemma add_edge_end_nodes: "end_nodes (fst (add_edge w e)) = end_nodes w"
  by (simp add: add_edge_def)

lemma set_entry_point_end_nodes: "end_nodes (fst (set_entry_point w nid)) = end_nodes w"
  by (simp add: set_entry_point_def)

lemma single_workflow_nodes:
  "nodes (single_workflow f) = [''A'' \<mapsto> Node_init ''A'' f None]"
  by (simp add: single_workflow_def add_node_def Workflow_init_def Node_init_def)

lemma single_workflow_fields:
  "edges (single_workflow f) = []" "start_node (single_workflow f) = None"
  "end_nodes (single_workflow f) = []"
  by (simp_all add: single_workflow_def add_node_def Workflow_init_def)

text \<open>
  Claim C4. \<open>add_edge\<close> with an edge whose source or target is not a key of \<open>nodes\<close>
  raises \<open>ValueError\<close>, and the workflow after the call is the workflow before it; in
  particular the edge list is the same.
\<close>

theorem add_edge_unknown_endpoint:
  "nodes w (from_node e) = None \<or> nodes w (to_node e) = None \<Longrightarrow>
   fst (add_edge w e) = w \<and> edges (fst (add_edge w e)) = edges w \<and>
   (\<exists>m. snd (add_edge w e) = Raised (ValueError m))"
  by (auto simp: add_edge_def)

theorem add_edge_unknown_endpoint_witness:
  "(nodes (single_workflow op_keep) (from_node dangling_edge) = None \<or>
    nodes (single_workflow op_keep) (to_node dangling_edge) = None) \<and>
   edges (fst (add_edge (single_workflow op_keep) dangling_edge)) = [] \<and>
   (\<exists>m. snd (add_edge (single_workflow op_keep) dangling_edge) = Raised (ValueError m))"
  using add_edge_unknown_endpoint [of "single_workflow op_keep" dangling_edge]
  by (simp add: single_workflow_nodes single_workflow_fields dangling_edge_def)

text \<open>
  Claim C9. \<open>add_end_node\<close> with an id that is not a key of \<open>nodes\<close> raises
  \<open>ValueError\<close> and leaves the workflow as it was. For a known id, and a terminal list
  without repetitions (which is what the constructor gives and what every method
  keeps), both of two calls in a row return, the second leaves the workflow as the
  first left it, and the id is in the terminal list exactly once.
\<close>

theorem add_end_node_idempotent:
  "(nodes w nid = None \<longrightarrow> (\<exists>m. add_end_node w nid = (w, Raised (ValueError m)))) \<and>
   (nodes w nid \<noteq> None \<and> distinct (end_nodes w) \<longrightarrow>
      (let (w1, r1) = add_end_node w nid; (w2, r2) = add_end_node w1 nid
       in r1 = Returned () \<and> r2 = Returned () \<and> w2 = w1 \<and>
          end_nodes w2 = end_nodes w1 \<and> count_list (end_nodes w2) nid = 1))"
  by (auto simp: add_end_node_def Let_def count_list_distinct split: if_splits)

theorem add_end_node_idempotent_witness:
  "nodes (single_workflow op_keep) ''Z'' = None \<and>
   (\<exists>m. add_end_node (single_workflow op_keep) ''Z'' = (single_workflow op_keep, Raised (ValueError m))) \<and>
   nodes (single_workflow op_keep) ''A'' \<noteq> None \<and> distinct (end_nodes (single_workflow op_keep)) \<and>
   end_nodes (fst (add_end_node (fst (add_end_node (single_workflow op_keep) ''A'')) ''A'')) = [''A'']"
  using add_end_node_idempotent [of "single_workflow op_keep" "''Z''"]
        add_end_node_idempotent [of "single_workflow op_keep" "''A''"]
  by (simp add: single_workflow_nodes single_workflow_fields add_end_node_def)

text \<open>
  Claim C10. \<open>add_node\<close> never raises. After \<open>add_node\<close> of two nodes with the same
  id, the id is bound to the second node, and the edge list and the start node are
  what they were.
\<close>

theorem add_node_same_id_replaces:
  "node_id n1 = node_id n2 \<Longrightarrow>
   (let (w1, r1) = add_node w n1; (w2, r2) = add_node w1 n2
    in r1 = Returned () \<and> r2 = Returned () \<and>
       nodes w2 (node_id n2) = Some n2 \<and> edges w2 = edges w \<and> start_node w2 = start_node w)"
  by (simp add: add_node_def)

theorem add_node_same_id_replaces_witness:
  "node_id (Node_init ''A'' op_keep None) = node_id (Node_init ''A'' op_boom (Some ''second'')) \<and>
   nodes (fst (add_node (fst (add_node loop_workflow (Node_init ''A'' op_keep None)))
                        (Node_init ''A'' op_boom (Some ''second'')))) ''A''
     = Some (Node_init ''A'' op_boom (Some ''second'')) \<and>
   start_node (fst (add_node (fst (add_node loop_workflow (Node_init ''A'' op_keep None)))
                        (Node_init ''A'' op_boom (Some ''second'')))) = start_node loop_workflow"
  using add_node_same_id_replaces [of "Node_init ''A'' op_keep None"
          "Node_init ''A'' op_boom (Some ''second'')" loop_workflow]
  by (simp add: Node_init_def add_node_def)

section \<open>Discipline A: termination\<close>

lemma next_nodes_loop_subset:
  "next_nodes_loop es cur st acc = Returned ids \<Longrightarrow> set ids \<subseteq> set acc \<union> to_node ` set es"
proof (induction es arbitrary: acc)
  case Nil
  then show ?case by simp
next
  case (Cons e es)
  show ?case
  proof (cases "from_node e = cur")
    case False
    with Cons.prems have "next_nodes_loop es cur st acc = Returned ids" by simp
    from Cons.IH [OF this] show ?thesis by auto
  next
    case True
    show ?thesis
    proof (cases "should_traverse e st")
      case (Raised x)
      with True Cons.prems show ?thesis by simp
    next
      case (Returned b)
      show ?thesis
      proof (cases b)
        case True
        with Returned \<open>from_node e = cur\<close> Cons.prems
        have "next_nodes_loop es cur st (acc @ [to_node e]) = Returned ids" by simp
        from Cons.IH [OF this] show ?thesis by auto
      next
        case False
        with Returned \<open>from_node e = cur\<close> Cons.prems
        have "next_nodes_loop es cur st acc = Returned ids" by simp
        from Cons.IH [OF this] show ?thesis by auto
      qed
    qed
  qed
qed

lemma get_next_nodes_subset:
  "get_next_nodes w cur = Returned ids \<Longrightarrow> set ids \<subseteq> to_node ` set (edges w)"
  using next_nodes_loop_subset [of "edges w" cur "wstate w" "[]" ids]
  by (simp add: get_next_nodes_def)

lemma visit_node_frame:
  "visit_node w nid = (w', r) \<Longrightarrow>
   edges w' = edges w \<and> end_nodes w' = end_nodes w \<and> start_node w' = start_node w \<and>
   wstatus w' = wstatus w"
  by (auto simp: visit_node_def Let_def split: option.splits prod.splits outcome.splits if_splits)


lemma visit_node_targets:
  "visit_node w nid = (w', Returned ids) \<Longrightarrow> set ids \<subseteq> to_node ` set (edges w)"
  by (auto simp: visit_node_def Let_def split: option.splits prod.splits outcome.splits if_splits
           dest!: get_next_nodes_subset)

lemma visit_node_history:
  "visit_node w nid = (w', r) \<Longrightarrow>
   map entry_node_id (execution_history w') = map entry_node_id (execution_history w) \<or>
   map entry_node_id (execution_history w') = map entry_node_id (execution_history w) @ [nid]"
  by (auto simp: visit_node_def Let_def split: option.splits prod.splits outcome.splits if_splits)

lemma run_layer_frame:
  "run_layer w vis cur nxt = (w', vis', r) \<Longrightarrow> edges w' = edges w"
proof (induction cur arbitrary: w vis nxt)
  case Nil
  then show ?case by simp
next
  case (Cons nid rest)
  show ?case
  proof (cases "nid \<in> vis")
    case True
    with Cons show ?thesis by simp
  next
    case False
    obtain w1 r1 where v: "visit_node w nid = (w1, r1)" by (cases "visit_node w nid")
    then have e: "edges w1 = edges w" by (simp add: visit_node_frame)
    show ?thesis
    proof (cases r1)
      case (Raised x)
      with False v Cons.prems e show ?thesis by simp
    next
      case (Returned ids)
      with False v Cons.prems
      have "run_layer w1 (insert nid vis) rest (nxt @ ids) = (w', vis', r)" by simp
      from Cons.IH [OF this] e show ?thesis by simp
    qed
  qed
qed

lemma run_layer_all_visited:
  "set cur \<subseteq> vis \<Longrightarrow> run_layer w vis cur nxt = (w, vis, Returned nxt)"
  by (induction cur) auto

lemma run_layer_returned:
  "run_layer w vis cur nxt = (w', vis', Returned nxt') \<Longrightarrow>
   vis' = vis \<union> set cur \<and> set nxt' \<subseteq> set nxt \<union> to_node ` set (edges w)"
proof (induction cur arbitrary: w vis nxt)
  case Nil
  then show ?case by auto
next
  case (Cons nid rest)
  show ?case
  proof (cases "nid \<in> vis")
    case True
    with Cons.prems have "run_layer w vis rest nxt = (w', vis', Returned nxt')" by simp
    from Cons.IH [OF this] True show ?thesis by auto
  next
    case False
    obtain w1 r1 where v: "visit_node w nid = (w1, r1)" by (cases "visit_node w nid")
    then have e: "edges w1 = edges w" by (simp add: visit_node_frame)
    show ?thesis
    proof (cases r1)
      case (Raised x)
      with False v Cons.prems show ?thesis by simp
    next
      case (Returned ids)
      with False v Cons.prems
      have "run_layer w1 (insert nid vis) rest (nxt @ ids) = (w', vis', Returned nxt')" by simp
      from Cons.IH [OF this] e visit_node_targets [of w nid w1 ids] v Returned
      show ?thesis by auto
    qed
  qed
qed

lemma run_layer_history:
  "run_layer w vis cur nxt = (w', vis', r) \<Longrightarrow>
   distinct (map entry_node_id (execution_history w)) \<Longrightarrow>
   set (map entry_node_id (execution_history w)) \<subseteq> vis \<Longrightarrow>
   distinct (map entry_node_id (execution_history w')) \<and>
   set (map entry_node_id (execution_history w')) \<subseteq> vis'"
proof (induction cur arbitrary: w vis nxt)
  case Nil
  then show ?case by auto
next
  case (Cons nid rest)
  show ?case
  proof (cases "nid \<in> vis")
    case True
    with Cons.prems have "run_layer w vis rest nxt = (w', vis', r)" by simp
    from Cons.IH [OF this] Cons.prems show ?thesis by simp
  next
    case False
    obtain w1 r1 where v: "visit_node w nid = (w1, r1)" by (cases "visit_node w nid")
    from visit_node_history [OF v]
    consider (same) "map entry_node_id (execution_history w1) = map entry_node_id (execution_history w)"
      | (more) "map entry_node_id (execution_history w1) = map entry_node_id (execution_history w) @ [nid]"
      by blast
    then have h: "distinct (map entry_node_id (execution_history w1)) \<and>
                  set (map entry_node_id (execution_history w1)) \<subseteq> insert nid vis"
    proof cases
      case same
      show ?thesis unfolding same using Cons.prems(2,3) by auto
    next
      case more
      show ?thesis unfolding more using False Cons.prems(2,3) by auto
    qed
    show ?thesis
    proof (cases r1)
      case (Raised x)
      with False v Cons.prems(1) h show ?thesis by auto
    next
      case (Returned ids)
      with False v Cons.prems(1)
      have "run_layer w1 (insert nid vis) rest (nxt @ ids) = (w', vis', r)" by simp
      from Cons.IH [OF this] h show ?thesis by blast
    qed
  qed
qed


lemma bfs_Nil: "bfs w vis [] = Some (w, Returned ())"
  by (subst bfs.simps) simp

lemma bfs_step:
  "cur \<noteq> [] \<Longrightarrow>
   bfs w vis cur =
     (case run_layer w vis cur [] of
        (w', vis', Raised x) \<Rightarrow> Some (w', Raised x)
      | (w', vis', Returned nxt) \<Rightarrow> bfs w' vis' nxt)"
  by (subst bfs.simps) simp

lemma bfs_terminates:
  "distinct (map entry_node_id (execution_history w)) \<Longrightarrow>
   set (map entry_node_id (execution_history w)) \<subseteq> vis \<Longrightarrow>
   \<exists>w' r. bfs w vis cur = Some (w', r) \<and> distinct (map entry_node_id (execution_history w'))"
proof (induction "2 * card ((to_node ` set (edges w) \<union> set cur) - vis) + (if cur = [] then 0 else 1 :: nat)"
       arbitrary: w vis cur rule: less_induct)
  case less
  show ?case
  proof (cases "cur = []")
    case True
    with less.prems show ?thesis by (simp add: bfs_Nil)
  next
    case False
    note ne = False
    obtain w1 vis1 r1 where rl: "run_layer w vis cur [] = (w1, vis1, r1)"
      by (cases "run_layer w vis cur []") auto
    from run_layer_history [OF rl less.prems]
    have h1: "distinct (map entry_node_id (execution_history w1))"
         "set (map entry_node_id (execution_history w1)) \<subseteq> vis1" by simp_all
    show ?thesis
    proof (cases r1)
      case (Raised x)
      with False rl h1 show ?thesis by (simp add: bfs_step)
    next
      case (Returned nxt)
      from run_layer_frame [OF rl] have e: "edges w1 = edges w" .
      from run_layer_returned [of w vis cur "[]" w1 vis1 nxt] rl Returned
      have v: "vis1 = vis \<union> set cur" and n: "set nxt \<subseteq> to_node ` set (edges w)" by simp_all
      let ?T = "to_node ` set (edges w)"
      have fin: "finite ((?T \<union> set cur) - vis)" by simp
      have "2 * card ((?T \<union> set nxt) - vis1) + (if nxt = [] then 0 else 1)
            < 2 * card ((?T \<union> set cur) - vis) + (if cur = [] then 0 else 1)"
      proof (cases "set cur \<subseteq> vis")
        case True
        from run_layer_all_visited [OF True, of w "[]"] rl Returned have "nxt = []" by simp
        moreover from True v have "(?T \<union> set nxt) - vis1 = (?T \<union> set cur) - vis"
          using \<open>nxt = []\<close> by auto
        ultimately show ?thesis using False by simp
      next
        case False
        then obtain x where x: "x \<in> set cur" "x \<notin> vis" by auto
        define a where "a = card ((?T \<union> set nxt) - vis1)"
        define b where "b = card ((?T \<union> set cur) - vis)"
        have "(?T \<union> set nxt) - vis1 \<subset> (?T \<union> set cur) - vis"
          using v n x by auto
        from psubset_card_mono [OF fin this] have "a < b" by (simp add: a_def b_def)
        then have "2 * a + (if nxt = [] then 0 else 1) < 2 * b + (if cur = [] then 0 else 1)"
          using ne by auto
        then show ?thesis unfolding a_def b_def .
      qed
      with e have "2 * card ((to_node ` set (edges w1) \<union> set nxt) - vis1) + (if nxt = [] then 0 else 1)
            < 2 * card ((?T \<union> set cur) - vis) + (if cur = [] then 0 else 1)" by simp
      from less.hyps [OF this h1]
      obtain w' r where "bfs w1 vis1 nxt = Some (w', r)"
        "distinct (map entry_node_id (execution_history w'))" by blast
      with False rl Returned show ?thesis by (simp add: bfs_step)
    qed
  qed
qed


lemma loop_workflow_fields:
  "start_node loop_workflow = Some ''A''"
  "edges loop_workflow = [\<lparr>from_node = ''A'', to_node = ''A'', condition = None\<rparr>]"
  "end_nodes loop_workflow = []"
  "nodes loop_workflow = [''A'' \<mapsto> Node_init ''A'' op_keep None]"
  by (simp_all add: loop_workflow_def set_entry_point_def add_edge_def
        single_workflow_nodes single_workflow_fields)

lemma visit_node_matches:
  assumes h: "history_matches w" and v: "visit_node w nid = (w', r)"
  shows "history_matches w'"
proof (cases "nodes w nid")
  case None
  with v h show ?thesis by (simp add: visit_node_def)
next
  case (Some nd)
  show ?thesis
  proof (cases "func nd (wstate w)")
    case (Inl m)
    with Some v have "w' = w\<lparr>nodes := (nodes w)(nid \<mapsto> nd\<lparr>status := FAILED, error := Some m\<rparr>),
                  execution_history := execution_history w @
                    [\<lparr>entry_node_id = nid, entry_node_name = name nd,
                      entry_status = ''failed'', entry_error = Some m\<rparr>]\<rparr>"
      by (auto simp: visit_node_def Node_execute_def)
    with h show ?thesis by (auto simp: history_matches_def)
  next
    case (Inr res)
    with Some v have "w' = w\<lparr>nodes := (nodes w)(nid \<mapsto> nd\<lparr>status := COMPLETED\<rparr>), wstate := res,
                            execution_history := execution_history w @
                              [\<lparr>entry_node_id = nid, entry_node_name = name nd,
                                entry_status = ''completed'', entry_error = None\<rparr>]\<rparr>"
      by (auto simp: visit_node_def Node_execute_def Let_def split: if_splits)
    with h show ?thesis by (auto simp: history_matches_def)
  qed
qed

lemma run_layer_matches:
  "history_matches w \<Longrightarrow> run_layer w vis cur nxt = (w', vis', r) \<Longrightarrow> history_matches w'"
proof (induction cur arbitrary: w vis nxt)
  case Nil
  then show ?case by simp
next
  case (Cons nid rest)
  show ?case
  proof (cases "nid \<in> vis")
    case True
    with Cons.prems have "run_layer w vis rest nxt = (w', vis', r)" by simp
    from Cons.IH [OF Cons.prems(1) this] show ?thesis .
  next
    case False
    obtain w1 r1 where v: "visit_node w nid = (w1, r1)" by (cases "visit_node w nid")
    from visit_node_matches [OF Cons.prems(1) v] have h1: "history_matches w1" .
    show ?thesis
    proof (cases r1)
      case (Raised x)
      with False v Cons.prems(2) h1 show ?thesis by simp
    next
      case (Returned ids)
      with False v Cons.prems(2)
      have "run_layer w1 (insert nid vis) rest (nxt @ ids) = (w', vis', r)" by simp
      from Cons.IH [OF h1 this] show ?thesis .
    qed
  qed
qed

lemma bfs_matches:
  assumes "bfs w vis cur = Some (w', r)" and "history_matches w"
  shows "history_matches w'"
proof -
  have "history_matches w \<longrightarrow> history_matches (fst (w', r))"
  proof (rule bfs.raw_induct
      [where P = "\<lambda>w vis cur y. history_matches w \<longrightarrow> history_matches (fst y)", OF _ assms(1)])
    fix b :: "Workflow \<Rightarrow> string set \<Rightarrow> string list \<Rightarrow> (Workflow \<times> unit outcome) option"
      and w vis cur y
    assume IH: "\<And>w vis cur y. b w vis cur = Some y \<Longrightarrow>
                 history_matches w \<longrightarrow> history_matches (fst y)"
      and body: "(if cur = [] then Some (w, Returned ())
          else (case run_layer w vis cur [] of
                  (w', visited', Raised x) \<Rightarrow> Some (w', Raised x)
                | (w', visited', Returned next_nodes) \<Rightarrow> b w' visited' next_nodes)) = Some y"
    show "history_matches w \<longrightarrow> history_matches (fst y)"
    proof
      assume h: "history_matches w"
      show "history_matches (fst y)"
      proof (cases "cur = []")
        case True
        with body h show ?thesis by auto
      next
        case False
        obtain w1 vis1 r1 where rl: "run_layer w vis cur [] = (w1, vis1, r1)"
          by (cases "run_layer w vis cur []") auto
        from run_layer_matches [OF h rl] have h1: "history_matches w1" .
        show ?thesis
        proof (cases r1)
          case (Raised x)
          with False rl body h1 show ?thesis by auto
        next
          case (Returned nxt)
          with False rl body have "b w1 vis1 nxt = Some y" by simp
          with IH h1 show ?thesis by blast
        qed
      qed
    qed
  qed
  with assms(2) show ?thesis by simp
qed

text \<open>
  Claim C5. With a start node set, \<open>Workflow.execute\<close> comes back to its caller, by
  returning or by raising, whatever the edges are: the loop function \<open>bfs\<close> has a
  result. The ids of the history entries of the run are pairwise different, and the
  nodes that have an entry are the nodes on which \<open>Node.execute\<close> was called in the
  run (those that are no longer \<open>PENDING\<close>): the operation of a node is called at
  most once. Operations and predicates are functions here, so they are taken to come
  back themselves.
\<close>

theorem execute_terminates:
  "start_node w = Some s \<Longrightarrow>
   \<exists>w' r. execute w initial_state = Some (w', r) \<and>
           distinct (map entry_node_id (execution_history w')) \<and>
           (\<forall>nid nd. nodes w' nid = Some nd \<longrightarrow>
              (status nd \<noteq> PENDING) = (nid \<in> set (map entry_node_id (execution_history w'))))"
proof -
  assume st: "start_node w = Some s"
  define w1 where "w1 = w\<lparr>wstate := (case initial_state of None \<Rightarrow> Map.empty | Some s0 \<Rightarrow> s0),
                       wstatus := WRUNNING,
                       execution_history := [],
                       nodes := (\<lambda>k. map_option Node_reset (nodes w k))\<rparr>"
  have "distinct (map entry_node_id (execution_history w1))"
       "set (map entry_node_id (execution_history w1)) \<subseteq> {}"
    by (simp_all add: w1_def)
  from bfs_terminates [OF this, of "[s]"]
  obtain w2 r2 where b: "bfs w1 {} [s] = Some (w2, r2)"
    and d: "distinct (map entry_node_id (execution_history w2))" by blast
  have "history_matches w1" by (auto simp: history_matches_def w1_def Node_reset_def)
  from bfs_matches [OF b this] have m: "history_matches w2" .
  show ?thesis
  proof (cases r2)
    case (Raised x)
    with st b d m show ?thesis
      by (simp add: execute_def w1_def [symmetric] history_matches_def)
  next
    case (Returned u)
    with st b d m show ?thesis
      by (simp add: execute_def w1_def [symmetric] history_matches_def)
  qed
qed

theorem execute_terminates_witness:
  "start_node loop_workflow = Some ''A'' \<and>
   (\<exists>w' r. execute loop_workflow None = Some (w', r) \<and>
            distinct (map entry_node_id (execution_history w')))"
  using execute_terminates [of loop_workflow "''A''" None]
  by (auto simp: loop_workflow_fields)

section \<open>Discipline A: the run from a configuration on\<close>

text \<open>
  A step of the traversal leaves the rest of the run as it is, so the result of
  \<open>Workflow.execute\<close> is the rest of the run from any configuration the call goes
  through, with the status set and the exception raised again by the outer handler.
\<close>

lemma execute_begin_run:
  "start_node w = Some s \<Longrightarrow>
   execute w initial_state =
     (case bfs (begin_run w initial_state) {} [s] of
        None \<Rightarrow> None
      | Some (w2, Raised x) \<Rightarrow> Some (w2\<lparr>wstatus := WFAILED\<rparr>, Raised x)
      | Some (w2, Returned u) \<Rightarrow> Some (w2\<lparr>wstatus := WCOMPLETED\<rparr>, Returned (wstate w2)))"
  by (simp add: execute_def begin_run_def Let_def)

lemma traverse_step_rest:
  "traverse_step c = Some c' \<Longrightarrow> rest_of_run c' = rest_of_run c"
proof -
  assume a: "traverse_step c = Some c'"
  obtain w vis cur nxt where c: "c = (w, vis, cur, nxt)" by (cases c) auto
  show ?thesis
  proof (cases cur)
    case Nil
    with a c have ne: "nxt \<noteq> []" and c': "c' = (w, vis, nxt, [])"
      by (auto split: if_splits)
    from ne have "rest_of_run (w, vis, nxt, []) = bfs w vis nxt"
      by (simp add: rest_of_run_def bfs_step)
    moreover from Nil have "rest_of_run (w, vis, cur, nxt) = bfs w vis nxt"
      by (simp add: rest_of_run_def)
    ultimately show ?thesis using c c' by simp
  next
    case (Cons nid rest)
    show ?thesis
    proof (cases "nid \<in> vis")
      case True
      with a c Cons have "c' = (w, vis, rest, nxt)" by simp
      with c Cons True show ?thesis by (simp add: rest_of_run_def)
    next
      case False
      obtain w1 r1 where v: "visit_node w nid = (w1, r1)" by (cases "visit_node w nid")
      show ?thesis
      proof (cases r1)
        case (Raised x)
        with a c Cons False v show ?thesis by simp
      next
        case (Returned ids)
        with a c Cons False v have "c' = (w1, insert nid vis, rest, nxt @ ids)" by simp
        with c Cons False v Returned show ?thesis by (simp add: rest_of_run_def)
      qed
    qed
  qed
qed

lemma config_after_rest:
  "config_after k w initial_state = Some c \<Longrightarrow>
   \<exists>s. start_node w = Some s \<and> rest_of_run c = bfs (begin_run w initial_state) {} [s]"
proof (induction k arbitrary: c)
  case 0
  then obtain s where s: "start_node w = Some s"
    and c: "c = (begin_run w initial_state, {}, [s], [])"
    by (auto split: option.splits)
  have "rest_of_run (begin_run w initial_state, {}, [s], []) = bfs (begin_run w initial_state) {} [s]"
    by (simp add: rest_of_run_def bfs_step)
  with s c show ?case by simp
next
  case (Suc k)
  then obtain c0 where c0: "config_after k w initial_state = Some c0"
    and st: "traverse_step c0 = Some c"
    by (auto split: option.splits)
  from Suc.IH [OF c0] traverse_step_rest [OF st] show ?case by simp
qed

lemma execute_from_config:
  assumes "config_after k w initial_state = Some c"
  shows "execute w initial_state =
     (case rest_of_run c of
        None \<Rightarrow> None
      | Some (w2, Raised x) \<Rightarrow> Some (w2\<lparr>wstatus := WFAILED\<rparr>, Raised x)
      | Some (w2, Returned u) \<Rightarrow> Some (w2\<lparr>wstatus := WCOMPLETED\<rparr>, Returned (wstate w2)))"
proof -
  from config_after_rest [OF assms] obtain s where s: "start_node w = Some s"
    and r: "rest_of_run c = bfs (begin_run w initial_state) {} [s]" by blast
  from execute_begin_run [OF s, of initial_state] r show ?thesis by simp
qed

section \<open>Discipline A: a node operation that raises\<close>

lemma visit_node_operation_raises:
  "nodes w nid = Some nd \<Longrightarrow> func nd (wstate w) = Inl m \<Longrightarrow>
   visit_node w nid =
     (w\<lparr>nodes := (nodes w)(nid \<mapsto> nd\<lparr>status := FAILED, error := Some m\<rparr>),
        execution_history := execution_history w @
          [\<lparr>entry_node_id = nid, entry_node_name = name nd,
            entry_status = ''failed'', entry_error = Some m\<rparr>]\<rparr>,
      Raised (OperationError m))"
  by (simp add: visit_node_def Node_execute_def)

lemma chain_fail_fields:
  "start_node chain_fail_workflow = Some ''A''"
  "edges chain_fail_workflow =
     [\<lparr>from_node = ''A'', to_node = ''B'', condition = None\<rparr>,
      \<lparr>from_node = ''B'', to_node = ''C'', condition = None\<rparr>]"
  "end_nodes chain_fail_workflow = [''C'']"
  "nodes chain_fail_workflow =
     [''A'' \<mapsto> Node_init ''A'' op_keep None, ''B'' \<mapsto> Node_init ''B'' op_boom None,
      ''C'' \<mapsto> Node_init ''C'' op_keep None]"
  by (simp_all add: chain_fail_workflow_def chain_workflow_def Let_def add_node_def add_edge_def
        set_entry_point_def add_end_node_def Workflow_init_def Node_init_def)

lemma chain_fail_config:
  "config_after 2 chain_fail_workflow (Some state_x) = Some (chain_fail_at_B, {''A''}, [''B''], [])"
  by (simp add: numeral_2_eq_2 chain_fail_at_B_def begin_run_def chain_fail_fields visit_node_def
        Node_execute_def Node_init_def Node_reset_def op_keep_def get_next_nodes_def
        should_traverse_def)

text \<open>
  Claim C3. Let a call of \<open>Workflow.execute\<close> arrive, after some number of steps, at a
  node \<open>nid\<close> that is not yet visited, and let the operation of that node raise the
  message \<open>m\<close> on the state the workflow holds at that moment. Then the call ends
  there, raising the exception of the operation. The workflow it leaves is the one of
  that moment with three changes: the node has the status \<open>FAILED\<close> and the error
  \<open>m\<close>, the history has one more entry, the last, with the id of the node, the status
  \<open>failed\<close> and the message \<open>m\<close>, and the status of the workflow is \<open>FAILED\<close>.
\<close>

theorem execute_operation_raises:
  assumes reached: "config_after k w0 initial_state = Some (w, visited, nid # rest, next_nodes)"
    and fresh: "nid \<notin> visited"
    and nd: "nodes w nid = Some nd"
    and raises: "func nd (wstate w) = Inl m"
  shows "execute w0 initial_state =
           Some (w\<lparr>nodes := (nodes w)(nid \<mapsto> nd\<lparr>status := FAILED, error := Some m\<rparr>),
                   execution_history := execution_history w @
                     [\<lparr>entry_node_id = nid, entry_node_name = name nd,
                       entry_status = ''failed'', entry_error = Some m\<rparr>],
                   wstatus := WFAILED\<rparr>,
                 Raised (OperationError m))"
proof -
  from visit_node_operation_raises [OF nd raises] fresh
  have "rest_of_run (w, visited, nid # rest, next_nodes) =
          Some (w\<lparr>nodes := (nodes w)(nid \<mapsto> nd\<lparr>status := FAILED, error := Some m\<rparr>),
                  execution_history := execution_history w @
                    [\<lparr>entry_node_id = nid, entry_node_name = name nd,
                      entry_status = ''failed'', entry_error = Some m\<rparr>]\<rparr>,
                Raised (OperationError m))"
    by (simp add: rest_of_run_def)
  with execute_from_config [OF reached] show ?thesis by simp
qed

theorem execute_operation_raises_witness:
  "config_after 2 chain_fail_workflow (Some state_x) = Some (chain_fail_at_B, {''A''}, [''B''], []) \<and>
   ''B'' \<notin> {''A''} \<and>
   nodes chain_fail_at_B ''B'' = Some (Node_init ''B'' op_boom None) \<and>
   op_boom (wstate chain_fail_at_B) = Inl ''boom'' \<and>
   execute chain_fail_workflow (Some state_x) =
     Some (chain_fail_at_B
             \<lparr>nodes := (nodes chain_fail_at_B)
                (''B'' \<mapsto> \<lparr>node_id = ''B'', func = op_boom, name = ''B'',
                             status = FAILED, error = Some ''boom''\<rparr>),
              execution_history :=
                [\<lparr>entry_node_id = ''A'', entry_node_name = ''A'',
                  entry_status = ''completed'', entry_error = None\<rparr>,
                 \<lparr>entry_node_id = ''B'', entry_node_name = ''B'',
                  entry_status = ''failed'', entry_error = Some ''boom''\<rparr>],
              wstatus := WFAILED\<rparr>,
           Raised (OperationError ''boom''))"
  using execute_operation_raises [of 2 chain_fail_workflow "Some state_x" chain_fail_at_B
          "{''A''}" "''B''" "[]" "[]" "Node_init ''B'' op_boom None" "''boom''"]
  by (simp add: chain_fail_config chain_fail_at_B_def begin_run_def chain_fail_fields
        Node_init_def Node_reset_def op_boom_def)

section \<open>Discipline A: the linear chain\<close>

lemma chain_workflow_fields:
  "start_node (chain_workflow fA fB fC) = Some ''A''"
  "edges (chain_workflow fA fB fC) =
     [\<lparr>from_node = ''A'', to_node = ''B'', condition = None\<rparr>,
      \<lparr>from_node = ''B'', to_node = ''C'', condition = None\<rparr>]"
  "end_nodes (chain_workflow fA fB fC) = [''C'']"
  "nodes (chain_workflow fA fB fC) =
     [''A'' \<mapsto> Node_init ''A'' fA None, ''B'' \<mapsto> Node_init ''B'' fB None,
      ''C'' \<mapsto> Node_init ''C'' fC None]"
  by (simp_all add: chain_workflow_def Let_def add_node_def add_edge_def set_entry_point_def
        add_end_node_def Workflow_init_def Node_init_def)

text \<open>
  Claim C7. For the chain of \<open>A\<close>, \<open>B\<close>, \<open>C\<close> and a run from the empty state in which
  the three operations return (the first on the empty state, each next one on what the
  one before returned), \<open>Workflow.execute\<close> returns what the operation of \<open>C\<close>
  returned, the status is \<open>COMPLETED\<close>, and the history consists of three entries,
  for \<open>A\<close>, \<open>B\<close> and \<open>C\<close> in this order, each with the status \<open>completed\<close>.
\<close>

theorem chain_executes_in_order:
  assumes "fA Map.empty = Inr s1" and "fB s1 = Inr s2" and "fC s2 = Inr s3"
  shows "\<exists>w'. execute (chain_workflow fA fB fC) (Some Map.empty) = Some (w', Returned s3) \<and>
           wstatus w' = WCOMPLETED \<and>
           execution_history w' =
             [\<lparr>entry_node_id = ''A'', entry_node_name = ''A'', entry_status = ''completed'', entry_error = None\<rparr>,
              \<lparr>entry_node_id = ''B'', entry_node_name = ''B'', entry_status = ''completed'', entry_error = None\<rparr>,
              \<lparr>entry_node_id = ''C'', entry_node_name = ''C'', entry_status = ''completed'', entry_error = None\<rparr>]"
  using assms
  by (simp add: execute_def chain_workflow_fields bfs_step bfs_Nil visit_node_def Node_execute_def
        Node_init_def Node_reset_def get_next_nodes_def should_traverse_def)

theorem chain_executes_in_order_witness:
  "op_keep Map.empty = Inr Map.empty \<and>
   (\<exists>w'. execute (chain_workflow op_keep op_keep op_keep) (Some Map.empty) = Some (w', Returned Map.empty) \<and>
      wstatus w' = WCOMPLETED \<and>
      map entry_node_id (execution_history w') = [''A'', ''B'', ''C''])"
  using chain_executes_in_order [of op_keep Map.empty op_keep Map.empty op_keep Map.empty]
  by (auto simp: op_keep_def)

section \<open>What becomes of the result of a node\<close>

lemma drop_workflow_fields:
  "start_node drop_workflow = Some ''A''"
  "edges drop_workflow = []"
  "end_nodes drop_workflow = []"
  "nodes drop_workflow = [''A'' \<mapsto> Node_init ''A'' op_empty None]"
  by (simp_all add: drop_workflow_def set_entry_point_def
        single_workflow_nodes single_workflow_fields)

lemma loop_engine_fields:
  "node_map loop_engine = [''A'' \<mapsto> \<lparr>n_id = ''1'', n_name = ''A'', tool_name = ''none''\<rparr>]"
  "eedges loop_engine = [\<lparr>e_from_node = ''A'', e_to_node = ''A'', e_condition = None\<rparr>]"
  "registry loop_engine = [''none'' \<mapsto> tool_none]"
  "current_state loop_engine = State_default"
  by (simp_all add: loop_engine_def Engine_init_def)

text \<open>
  Claim C1, as the code has it. In Discipline A the running state after a node has
  been executed is the mapping its operation returned, whatever the state was before:
  after an operation that returns \<open>{}\<close> the state is \<open>{}\<close>. In Discipline B a tool
  that returns \<open>{}\<close> leaves the state as the tool received it, which is the state
  before the call of \<open>run_node\<close> with the line \<open>Running node ...\<close> appended to \<open>logs\<close>.
\<close>

theorem node_result_applied:
  "(nodes w nid = Some nd \<and> func nd (wstate w) = Inr res \<longrightarrow>
      wstate (fst (visit_node w nid)) = res) \<and>
   (node_map eng n = Some en \<and> registry eng (tool_name en) = Some t \<and>
    t ((current_state eng)\<lparr>logs := logs (current_state eng) @
         [''Running node '' @ n @ '' with tool '' @ tool_name en]\<rparr>) = Inr [] \<longrightarrow>
      run_node ext eng n =
        (eng\<lparr>current_state := (current_state eng)\<lparr>logs := logs (current_state eng) @
           [''Running node '' @ n @ '' with tool '' @ tool_name en]\<rparr>\<rparr>, Returned ()))"
  by (auto simp: visit_node_def Node_execute_def run_node_def Let_def split: outcome.splits)

theorem node_result_applied_witness:
  "nodes drop_workflow ''A'' = Some (Node_init ''A'' op_empty None) \<and>
   func (Node_init ''A'' op_empty None) (wstate (drop_workflow\<lparr>wstate := state_x\<rparr>)) = Inr Map.empty \<and>
   wstate (fst (visit_node (drop_workflow\<lparr>wstate := state_x\<rparr>) ''A'')) = Map.empty \<and>
   node_map loop_engine ''A'' = Some \<lparr>n_id = ''1'', n_name = ''A'', tool_name = ''none''\<rparr> \<and>
   registry loop_engine ''none'' = Some tool_none \<and>
   run_node plain_ext loop_engine ''A'' =
     (loop_engine\<lparr>current_state := State_default\<lparr>logs := [''Running node A with tool none'']\<rparr>\<rparr>,
      Returned ())"
  using node_result_applied [of "drop_workflow\<lparr>wstate := state_x\<rparr>" "''A''"
          "Node_init ''A'' op_empty None" Map.empty loop_engine "''A''"
          "\<lparr>n_id = ''1'', n_name = ''A'', tool_name = ''none''\<rparr>" tool_none plain_ext]
  by (simp add: drop_workflow_fields loop_engine_fields Node_init_def op_empty_def tool_none_def
        State_default_def)

text \<open>
  Claim C1, as it is stated, fails in Discipline A: the state has the key \<open>x\<close>, the
  operation of the only node returns \<open>{}\<close>, and after the run the key is gone from the
  state of the workflow and from the returned state.
\<close>

theorem empty_result_keeps_keys_counterexample:
  "state_x ''x'' = Some (PInt 1) \<and>
   op_empty state_x = Inr Map.empty \<and>
   map_option snd (execute drop_workflow (Some state_x)) = Some (Returned Map.empty) \<and>
   map_option (\<lambda>p. wstate (fst p) ''x'') (execute drop_workflow (Some state_x)) = Some None"
  by (simp add: state_x_def op_empty_def execute_def drop_workflow_fields bfs_step bfs_Nil
        visit_node_def Node_execute_def Node_init_def Node_reset_def get_next_nodes_def)

section \<open>Discipline B: the choice of the successor\<close>

lemma first_taken_find:
  "first_taken ext es st = map_option e_to_node (find (\<lambda>e. edge_taken ext e st) es)"
  by (induction es) (auto simp: edge_taken_def split: option.splits sum.splits)

lemma find_filter_conj: "find P (filter Q xs) = find (\<lambda>x. Q x \<and> P x) xs"
  by (induction xs) auto

text \<open>
  Claim C8. The successor that \<open>_get_next_node_name\<close> returns is the target of the
  first edge, in the order of the edge list, whose source is the current node and
  which is taken in the state; it is \<open>None\<close> when there is no such edge. \<open>find\<close>
  returns the first element of a list with a property, so edges behind that one and
  edges with another source have no part in the result.
\<close>

theorem get_next_node_name_first_taken:
  "get_next_node_name ext eng cur st =
     map_option e_to_node (find (\<lambda>e. e_from_node e = cur \<and> edge_taken ext e st) (eedges eng))"
  by (simp add: get_next_node_name_def first_taken_find find_filter_conj)

section \<open>Exceptions of predicates\<close>

lemma first_taken_skips_raising:
  "first_taken ext (filter (\<lambda>e. \<not> condition_raises ext e st) es) st = first_taken ext es st"
  by (induction es) (auto simp: condition_raises_def split: option.splits sum.splits)

lemma filter_filter_swap: "filter P (filter Q xs) = filter Q (filter P xs)"
  by (induction xs) auto

lemma get_next_node_name_skips_raising:
  "get_next_node_name ext (eng\<lparr>eedges := filter (\<lambda>e. \<not> condition_raises ext e st) (eedges eng)\<rparr>) cur st
     = get_next_node_name ext eng cur st"
proof -
  let ?R = "\<lambda>e. \<not> condition_raises ext e st" and ?F = "\<lambda>e. e_from_node e = cur"
  have "get_next_node_name ext (eng\<lparr>eedges := filter ?R (eedges eng)\<rparr>) cur st
        = first_taken ext (filter ?F (filter ?R (eedges eng))) st"
    unfolding get_next_node_name_def by (simp del: filter_filter)
  also have "filter ?F (filter ?R (eedges eng)) = filter ?R (filter ?F (eedges eng))"
    by (rule filter_filter_swap)
  also have "first_taken ext (filter ?R (filter ?F (eedges eng))) st
             = first_taken ext (filter ?F (eedges eng)) st"
    by (rule first_taken_skips_raising)
  finally show ?thesis by (simp add: get_next_node_name_def)
qed

lemma next_nodes_loop_first_raising:
  "from_node e = cur \<Longrightarrow> condition e = Some p \<Longrightarrow> p st = Inl m \<Longrightarrow>
   \<forall>x\<in>set pre. from_node x = cur \<longrightarrow> (\<forall>y. should_traverse x st \<noteq> Raised y) \<Longrightarrow>
   next_nodes_loop (pre @ e # post) cur st acc = Raised (PredicateError m)"
proof (induction pre arbitrary: acc)
  case Nil
  then show ?case by (simp add: should_traverse_def)
next
  case (Cons x pre)
  then show ?case by (cases "should_traverse x st") auto
qed

lemma visit_node_predicate_raises:
  assumes "nodes w nid = Some nd" and "func nd (wstate w) = Inr res"
    and "nid \<notin> set (end_nodes w)"
    and "edges w = pre @ e # post" and "from_node e = nid"
    and "condition e = Some p" and "p res = Inl m"
    and "\<forall>x\<in>set pre. from_node x = nid \<longrightarrow> (\<forall>y. should_traverse x res \<noteq> Raised y)"
  shows "visit_node w nid =
     (w\<lparr>nodes := (nodes w)(nid \<mapsto> nd\<lparr>status := COMPLETED\<rparr>), wstate := res,
        execution_history := execution_history w @
          [\<lparr>entry_node_id = nid, entry_node_name = name nd,
            entry_status = ''completed'', entry_error = None\<rparr>]\<rparr>,
      Raised (PredicateError m))"
proof -
  from assms(5-8) have "next_nodes_loop (pre @ e # post) nid res [] = Raised (PredicateError m)"
    by (rule next_nodes_loop_first_raising)
  with assms(1-4) show ?thesis
    by (simp add: visit_node_def Node_execute_def Let_def get_next_nodes_def)
qed

lemma guard_workflow_fields:
  "start_node guard_workflow = Some ''A''"
  "edges guard_workflow =
     [\<lparr>from_node = ''A'', to_node = ''B'', condition = Some pred_boom\<rparr>,
      \<lparr>from_node = ''A'', to_node = ''B'', condition = None\<rparr>]"
  "end_nodes guard_workflow = []"
  "nodes guard_workflow =
     [''A'' \<mapsto> Node_init ''A'' op_keep None, ''B'' \<mapsto> Node_init ''B'' op_keep None]"
  by (simp_all add: guard_workflow_def Let_def add_node_def add_edge_def set_entry_point_def
        Workflow_init_def Node_init_def)

lemma guard_engine_fields:
  "eedges guard_engine =
     [\<lparr>e_from_node = ''A'', e_to_node = ''A'', e_condition = Some ''state.missing > 1''\<rparr>,
      \<lparr>e_from_node = ''A'', e_to_node = ''B'', e_condition = None\<rparr>]"
  by (simp add: guard_engine_def Engine_init_def)

lemma execute_guard_workflow:
  "execute guard_workflow None = Some (guard_workflow_after, Raised (PredicateError ''bad predicate''))"
  by (simp add: guard_workflow_after_def execute_def guard_workflow_fields bfs_step visit_node_def
        Node_execute_def Node_init_def Node_reset_def op_keep_def pred_boom_def
        get_next_nodes_def should_traverse_def)

lemma late_guard_fields:
  "start_node late_guard_workflow = Some ''A''"
  "edges late_guard_workflow =
     [\<lparr>from_node = ''A'', to_node = ''B'', condition = None\<rparr>,
      \<lparr>from_node = ''B'', to_node = ''C'', condition = Some pred_boom\<rparr>,
      \<lparr>from_node = ''B'', to_node = ''C'', condition = None\<rparr>]"
  "end_nodes late_guard_workflow = []"
  "nodes late_guard_workflow =
     [''A'' \<mapsto> Node_init ''A'' op_keep None, ''B'' \<mapsto> Node_init ''B'' op_keep None,
      ''C'' \<mapsto> Node_init ''C'' op_keep None]"
  by (simp_all add: late_guard_workflow_def Let_def add_node_def add_edge_def set_entry_point_def
        Workflow_init_def Node_init_def)

lemma late_guard_config:
  "config_after 2 late_guard_workflow None = Some (late_guard_at_B, {''A''}, [''B''], [])"
  by (simp add: numeral_2_eq_2 late_guard_at_B_def begin_run_def late_guard_fields visit_node_def
        Node_execute_def Node_init_def Node_reset_def op_keep_def get_next_nodes_def
        should_traverse_def)

text \<open>
  Claim C2, as the code has it. In Discipline B an edge whose condition raises is as
  good as absent: \<open>_get_next_node_name\<close>, which cannot raise, returns what it
  returns for the edge list without the edges whose condition raises in the state. In
  Discipline A nothing catches the exception of a predicate. \<open>get_next_nodes\<close> raises
  it at the first edge from the node whose predicate raises. And let a call of
  \<open>Workflow.execute\<close> arrive, after some number of steps, at a node \<open>nid1\<close> that is
  not yet visited and not terminal, let its operation return \<open>res\<close>, and let \<open>e1\<close> be
  the first edge from \<open>nid1\<close> whose predicate raises on \<open>res\<close>, with the message
  \<open>m1\<close>. Then the call ends there, raising the exception of the predicate: the
  workflow it leaves is the one of that moment with the node completed, the state
  \<open>res\<close>, the status \<open>FAILED\<close>, and a history whose last entry is that of \<open>nid1\<close>,
  so no further node is executed, whatever edges follow \<open>e1\<close>.
\<close>

theorem predicate_exception_handling:
  "(get_next_node_name ext (eng\<lparr>eedges := filter (\<lambda>e. \<not> condition_raises ext e st) (eedges eng)\<rparr>) cur st
      = get_next_node_name ext eng cur st) \<and>
   (edges w = pre @ e # post \<and> from_node e = nid \<and> condition e = Some p \<and> p (wstate w) = Inl m \<and>
    (\<forall>x\<in>set pre. from_node x = nid \<longrightarrow> (\<forall>y. should_traverse x (wstate w) \<noteq> Raised y)) \<longrightarrow>
      get_next_nodes w nid = Raised (PredicateError m)) \<and>
   (config_after k w0 initial_state = Some (w1, visited, nid1 # rest, next_nodes) \<and>
    nid1 \<notin> visited \<and> nodes w1 nid1 = Some nd \<and> func nd (wstate w1) = Inr res \<and>
    nid1 \<notin> set (end_nodes w1) \<and>
    edges w1 = pre1 @ e1 # post1 \<and> from_node e1 = nid1 \<and> condition e1 = Some p1 \<and>
    p1 res = Inl m1 \<and>
    (\<forall>x\<in>set pre1. from_node x = nid1 \<longrightarrow> (\<forall>y. should_traverse x res \<noteq> Raised y)) \<longrightarrow>
      execute w0 initial_state =
        Some (w1\<lparr>nodes := (nodes w1)(nid1 \<mapsto> nd\<lparr>status := COMPLETED\<rparr>), wstate := res,
                 execution_history := execution_history w1 @
                   [\<lparr>entry_node_id = nid1, entry_node_name = name nd,
                     entry_status = ''completed'', entry_error = None\<rparr>],
                 wstatus := WFAILED\<rparr>,
              Raised (PredicateError m1)))"
proof (intro conjI impI)
  show "get_next_node_name ext (eng\<lparr>eedges := filter (\<lambda>e. \<not> condition_raises ext e st) (eedges eng)\<rparr>) cur st
      = get_next_node_name ext eng cur st"
    by (rule get_next_node_name_skips_raising)
next
  assume "edges w = pre @ e # post \<and> from_node e = nid \<and> condition e = Some p \<and> p (wstate w) = Inl m \<and>
    (\<forall>x\<in>set pre. from_node x = nid \<longrightarrow> (\<forall>y. should_traverse x (wstate w) \<noteq> Raised y))"
  then show "get_next_nodes w nid = Raised (PredicateError m)"
    by (simp add: get_next_nodes_def next_nodes_loop_first_raising)
next
  assume a: "config_after k w0 initial_state = Some (w1, visited, nid1 # rest, next_nodes) \<and>
    nid1 \<notin> visited \<and> nodes w1 nid1 = Some nd \<and> func nd (wstate w1) = Inr res \<and>
    nid1 \<notin> set (end_nodes w1) \<and>
    edges w1 = pre1 @ e1 # post1 \<and> from_node e1 = nid1 \<and> condition e1 = Some p1 \<and>
    p1 res = Inl m1 \<and>
    (\<forall>x\<in>set pre1. from_node x = nid1 \<longrightarrow> (\<forall>y. should_traverse x res \<noteq> Raised y))"
  then have reached: "config_after k w0 initial_state = Some (w1, visited, nid1 # rest, next_nodes)"
    and fresh: "nid1 \<notin> visited" by simp_all
  from a have h1: "nodes w1 nid1 = Some nd" and h2: "func nd (wstate w1) = Inr res"
    and h3: "nid1 \<notin> set (end_nodes w1)" and h4: "edges w1 = pre1 @ e1 # post1"
    and h5: "from_node e1 = nid1" and h6: "condition e1 = Some p1" and h7: "p1 res = Inl m1"
    and h8: "\<forall>x\<in>set pre1. from_node x = nid1 \<longrightarrow> (\<forall>y. should_traverse x res \<noteq> Raised y)"
    by simp_all
  from visit_node_predicate_raises [OF h1 h2 h3 h4 h5 h6 h7 h8] fresh
  have "rest_of_run (w1, visited, nid1 # rest, next_nodes) =
     Some (w1\<lparr>nodes := (nodes w1)(nid1 \<mapsto> nd\<lparr>status := COMPLETED\<rparr>), wstate := res,
        execution_history := execution_history w1 @
          [\<lparr>entry_node_id = nid1, entry_node_name = name nd,
            entry_status = ''completed'', entry_error = None\<rparr>]\<rparr>,
      Raised (PredicateError m1))"
    by (simp add: rest_of_run_def)
  with execute_from_config [OF reached]
  show "execute w0 initial_state =
        Some (w1\<lparr>nodes := (nodes w1)(nid1 \<mapsto> nd\<lparr>status := COMPLETED\<rparr>), wstate := res,
                 execution_history := execution_history w1 @
                   [\<lparr>entry_node_id = nid1, entry_node_name = name nd,
                     entry_status = ''completed'', entry_error = None\<rparr>],
                 wstatus := WFAILED\<rparr>,
              Raised (PredicateError m1))"
    by simp
qed

theorem predicate_exception_handling_witness:
  "condition_raises plain_ext
     \<lparr>e_from_node = ''A'', e_to_node = ''A'', e_condition = Some ''state.missing > 1''\<rparr> State_default \<and>
   get_next_node_name plain_ext guard_engine ''A'' State_default = Some ''B'' \<and>
   pred_boom (wstate guard_workflow_after) = Inl ''bad predicate'' \<and>
   get_next_nodes guard_workflow_after ''A'' = Raised (PredicateError ''bad predicate'') \<and>
   config_after 2 late_guard_workflow None = Some (late_guard_at_B, {''A''}, [''B''], []) \<and>
   ''B'' \<notin> {''A''} \<and>
   nodes late_guard_at_B ''B'' = Some (Node_init ''B'' op_keep None) \<and>
   op_keep (wstate late_guard_at_B) = Inr Map.empty \<and>
   ''B'' \<notin> set (end_nodes late_guard_at_B) \<and>
   edges late_guard_at_B =
     [\<lparr>from_node = ''A'', to_node = ''B'', condition = None\<rparr>] @
     \<lparr>from_node = ''B'', to_node = ''C'', condition = Some pred_boom\<rparr> #
     [\<lparr>from_node = ''B'', to_node = ''C'', condition = None\<rparr>] \<and>
   pred_boom Map.empty = Inl ''bad predicate'' \<and>
   execute late_guard_workflow None =
     Some (late_guard_at_B
             \<lparr>nodes := (nodes late_guard_at_B)
                (''B'' \<mapsto> \<lparr>node_id = ''B'', func = op_keep, name = ''B'',
                             status = COMPLETED, error = None\<rparr>),
              wstate := Map.empty,
              execution_history :=
                [\<lparr>entry_node_id = ''A'', entry_node_name = ''A'',
                  entry_status = ''completed'', entry_error = None\<rparr>,
                 \<lparr>entry_node_id = ''B'', entry_node_name = ''B'',
                  entry_status = ''completed'', entry_error = None\<rparr>],
              wstatus := WFAILED\<rparr>,
           Raised (PredicateError ''bad predicate''))"
  using predicate_exception_handling [where ext = plain_ext and eng = guard_engine
          and st = State_default and cur = "''A''" and w = guard_workflow_after and pre = "[]"
          and e = "\<lparr>from_node = ''A'', to_node = ''B'', condition = Some pred_boom\<rparr>"
          and post = "[\<lparr>from_node = ''A'', to_node = ''B'', condition = None\<rparr>]"
          and nid = "''A''" and p = pred_boom and m = "''bad predicate''"
          and k = 2 and ?w0.0 = late_guard_workflow and initial_state = None
          and ?w1.0 = late_guard_at_B and visited = "{''A''}" and ?nid1.0 = "''B''"
          and rest = "[]" and next_nodes = "[]" and nd = "Node_init ''B'' op_keep None"
          and res = Map.empty
          and ?pre1.0 = "[\<lparr>from_node = ''A'', to_node = ''B'', condition = None\<rparr>]"
          and ?e1.0 = "\<lparr>from_node = ''B'', to_node = ''C'', condition = Some pred_boom\<rparr>"
          and ?post1.0 = "[\<lparr>from_node = ''B'', to_node = ''C'', condition = None\<rparr>]"
          and ?p1.0 = pred_boom and ?m1.0 = "''bad predicate''"]
  by (simp add: late_guard_config late_guard_at_B_def begin_run_def late_guard_fields
        guard_workflow_fields guard_workflow_after_def
        guard_engine_fields condition_raises_def plain_ext_def pred_boom_def op_keep_def
        get_next_node_name_def Node_init_def Node_reset_def)

text \<open>
  Claim C2, as it is stated, fails in Discipline A: the predicate of the first edge
  from \<open>A\<close> raises; the run ends with that exception and the status \<open>FAILED\<close>, and
  \<open>B\<close> is never executed although the second edge from \<open>A\<close> has no predicate.
\<close>

theorem predicate_exception_is_fatal_counterexample:
  "map_option snd (execute guard_workflow None) = Some (Raised (PredicateError ''bad predicate'')) \<and>
   map_option (\<lambda>r. wstatus (fst r)) (execute guard_workflow None) = Some WFAILED \<and>
   map_option (\<lambda>r. map entry_node_id (execution_history (fst r))) (execute guard_workflow None)
     = Some [''A''] \<and>
   edges guard_workflow =
     [\<lparr>from_node = ''A'', to_node = ''B'', condition = Some pred_boom\<rparr>,
      \<lparr>from_node = ''A'', to_node = ''B'', condition = None\<rparr>] \<and>
   pred_boom Map.empty = Inl ''bad predicate''"
  by (simp add: execute_guard_workflow guard_workflow_after_def guard_workflow_fields pred_boom_def)

section \<open>Discipline B: the step ceiling\<close>

lemma node_succeeds_run_node:
  "node_succeeds ext eng n st st' \<Longrightarrow>
   run_node ext (eng\<lparr>current_state := st\<rparr>) n = (eng\<lparr>current_state := st'\<rparr>, Returned ())"
  by (auto simp: node_succeeds_def run_node_def Let_def split: option.splits sum.splits if_splits)

lemma get_next_node_name_find:
  "find (\<lambda>e. e_from_node e = n \<and> edge_taken ext e st) (eedges eng) = Some e \<Longrightarrow>
   get_next_node_name ext (eng\<lparr>current_state := st'\<rparr>) n st = Some (e_to_node e)"
  by (simp add: get_next_node_name_def first_taken_find find_filter_conj)

lemma run_loop_ten_executions:
  assumes step: "\<And>k st n. k < 10 \<Longrightarrow> I k st n \<Longrightarrow> n \<noteq> [] \<and>
             (\<exists>st' e. node_succeeds ext eng n st st' \<and>
                find (\<lambda>e. e_from_node e = n \<and> edge_taken ext e st') (eedges eng) = Some e \<and>
                I (Suc k) st' (e_to_node e))"
  shows "I k st n \<Longrightarrow> k \<le> 10 \<Longrightarrow>
         \<exists>st10 n10. I 10 st10 n10 \<and>
           run_loop ext (eng\<lparr>current_state := st\<rparr>) (Some n) k
             = (eng\<lparr>current_state := st10\<rparr>, 10, Returned ())"
proof (induction "10 - k" arbitrary: k st n)
  case 0
  then have k: "k = 10" by simp
  with 0 have "I 10 st n" by simp
  moreover from k have "run_loop ext (eng\<lparr>current_state := st\<rparr>) (Some n) k
                 = (eng\<lparr>current_state := st\<rparr>, 10, Returned ())"
    by (simp add: MAX_STEPS_def)
  ultimately show ?case by blast
next
  case (Suc d)
  then have lt: "k < 10" by simp
  from step [OF lt Suc.prems(1)] obtain st' e where ne: "n \<noteq> []"
    and ns: "node_succeeds ext eng n st st'"
    and fd: "find (\<lambda>e. e_from_node e = n \<and> edge_taken ext e st') (eedges eng) = Some e"
    and i1: "I (Suc k) st' (e_to_node e)" by blast
  from Suc.hyps(2) have d: "d = 10 - Suc k" by simp
  from lt have le: "Suc k \<le> 10" by simp
  from Suc.hyps(1) [OF d i1 le] obtain st10 n10 where i10: "I 10 st10 n10"
    and rl: "run_loop ext (eng\<lparr>current_state := st'\<rparr>) (Some (e_to_node e)) (Suc k)
               = (eng\<lparr>current_state := st10\<rparr>, 10, Returned ())" by blast
  from node_succeeds_run_node [OF ns] get_next_node_name_find [OF fd, of st'] ne lt rl
  have "run_loop ext (eng\<lparr>current_state := st\<rparr>) (Some n) k
          = (eng\<lparr>current_state := st10\<rparr>, 10, Returned ())"
    by (simp add: MAX_STEPS_def)
  with i10 show ?case by blast
qed

text \<open>
  Claim C6, as the code has it. Let \<open>I k st n\<close> be a property of a number of
  executions, a state and a node name that holds of 0, the initial state and the start
  node, and let it be such that, whenever it holds with \<open>k < 10\<close>, the name \<open>n\<close> is
  not empty, the execution of the node \<open>n\<close> in \<open>st\<close> succeeds with a state \<open>st'\<close>,
  some edge from \<open>n\<close> is taken in \<open>st'\<close>, and \<open>I\<close> holds of \<open>k + 1\<close>, \<open>st'\<close> and the
  target of the first such edge. Then the loop ends with the counter at 10 in a state
  \<open>st10\<close> of which \<open>I 10\<close> holds, that is the state after ten executions and not
  one more or less, and \<open>Engine.execute\<close> returns the dump of \<open>st10\<close> with the line
  about the maximum of steps added to \<open>logs\<close>; the engine keeps that state.
\<close>

theorem engine_stops_at_ceiling:
  assumes init: "State_new ext initial_input = Inr st0"
    and start: "I 0 st0 start_node_name"
    and step: "\<forall>k st n. k < 10 \<and> I k st n \<longrightarrow> n \<noteq> [] \<and>
                 (\<exists>st' e. node_succeeds ext eng n st st' \<and>
                    find (\<lambda>e. e_from_node e = n \<and> edge_taken ext e st') (eedges eng) = Some e \<and>
                    I (Suc k) st' (e_to_node e))"
  shows "\<exists>st10 n10. I 10 st10 n10 \<and>
           run_loop ext (eng\<lparr>current_state := st0\<rparr>) (Some start_node_name) 0
             = (eng\<lparr>current_state := st10\<rparr>, 10, Returned ()) \<and>
           Engine_execute ext eng start_node_name initial_input =
             (eng\<lparr>current_state := st10\<lparr>logs := logs st10 @
                  [''Maximum steps reached. Workflow terminated.'']\<rparr>\<rparr>,
              Returned (model_dump ext (st10\<lparr>logs := logs st10 @
                  [''Maximum steps reached. Workflow terminated.'']\<rparr>)))"
proof -
  from step have "\<And>k st n. k < 10 \<Longrightarrow> I k st n \<Longrightarrow> n \<noteq> [] \<and>
             (\<exists>st' e. node_succeeds ext eng n st st' \<and>
                find (\<lambda>e. e_from_node e = n \<and> edge_taken ext e st') (eedges eng) = Some e \<and>
                I (Suc k) st' (e_to_node e))"
    by blast
  from run_loop_ten_executions [of I ext eng, OF this start]
  obtain st10 n10 where i10: "I 10 st10 n10"
    and rl: "run_loop ext (eng\<lparr>current_state := st0\<rparr>) (Some start_node_name) 0
               = (eng\<lparr>current_state := st10\<rparr>, 10, Returned ())" by auto
  from init rl have "Engine_execute ext eng start_node_name initial_input =
             (eng\<lparr>current_state := st10\<lparr>logs := logs st10 @
                  [''Maximum steps reached. Workflow terminated.'']\<rparr>\<rparr>,
              Returned (model_dump ext (st10\<lparr>logs := logs st10 @
                  [''Maximum steps reached. Workflow terminated.'']\<rparr>)))"
    by (simp add: Engine_execute_def Let_def MAX_STEPS_def)
  with i10 rl show ?thesis by blast
qed

theorem engine_stops_at_ceiling_witness:
  "State_new plain_ext [] = Inr State_default \<and>
   run_loop plain_ext (loop_engine\<lparr>current_state := State_default\<rparr>) (Some ''A'') 0 =
     (loop_engine\<lparr>current_state :=
        State_default\<lparr>logs := replicate 10 ''Running node A with tool none''\<rparr>\<rparr>,
      10, Returned ()) \<and>
   Engine_execute plain_ext loop_engine ''A'' [] =
     (loop_engine\<lparr>current_state :=
        State_default\<lparr>logs := replicate 10 ''Running node A with tool none'' @
                               [''Maximum steps reached. Workflow terminated.'']\<rparr>\<rparr>,
      Returned (model_dump plain_ext
        (State_default\<lparr>logs := replicate 10 ''Running node A with tool none'' @
                                [''Maximum steps reached. Workflow terminated.'']\<rparr>)))"
proof -
  let ?I = "\<lambda>k st n. n = ''A'' \<and>
              st = State_default\<lparr>logs := replicate k ''Running node A with tool none''\<rparr>"
  have init: "State_new plain_ext [] = Inr State_default" by (simp add: plain_ext_def)
  have start: "?I 0 State_default ''A''" by (simp add: State_default_def)
  have step: "\<forall>k st n. k < 10 \<and> ?I k st n \<longrightarrow> n \<noteq> [] \<and>
                 (\<exists>st' e. node_succeeds plain_ext loop_engine n st st' \<and>
                    find (\<lambda>e. e_from_node e = n \<and> edge_taken plain_ext e st') (eedges loop_engine) = Some e \<and>
                    ?I (Suc k) st' (e_to_node e))"
    by (auto simp: node_succeeds_def loop_engine_fields tool_none_def edge_taken_def
          replicate_append_same)
  from engine_stops_at_ceiling [of plain_ext "[]" State_default ?I "''A''" loop_engine,
         OF init start step] init
  show ?thesis by auto
qed

text \<open>
  Claim C6, as it is stated, fails. In the first engine the only node that is
  executed, \<open>A\<close>, has an outgoing edge without a condition; its target \<open>B\<close> is not a
  node, and \<open>Engine.execute\<close> raises \<open>ValueError\<close> after one execution. In the second
  the target of the edge is the empty name, which ends the loop after one execution
  with the line about a successful end.
\<close>

theorem dangling_edge_raises_counterexample:
  "eedges dangle_engine = [\<lparr>e_from_node = ''A'', e_to_node = ''B'', e_condition = None\<rparr>] \<and>
   (\<forall>st. edge_taken plain_ext \<lparr>e_from_node = ''A'', e_to_node = ''B'', e_condition = None\<rparr> st) \<and>
   Engine_execute plain_ext dangle_engine ''A'' [] =
     (dangle_engine\<lparr>current_state :=
        State_default\<lparr>logs := [''Running node A with tool none'']\<rparr>\<rparr>,
      Raised (ValueError ''Node B not found'')) \<and>
   eedges blank_engine = [\<lparr>e_from_node = ''A'', e_to_node = [], e_condition = None\<rparr>] \<and>
   Engine_execute plain_ext blank_engine ''A'' [] =
     (blank_engine\<lparr>current_state :=
        State_default\<lparr>logs := [''Running node A with tool none'',
                                ''Workflow completed successfully.'']\<rparr>\<rparr>,
      Returned (model_dump plain_ext
        (State_default\<lparr>logs := [''Running node A with tool none'',
                                 ''Workflow completed successfully.'']\<rparr>)))"
  by (simp add: dangle_engine_def blank_engine_def Engine_init_def Engine_execute_def
        run_node_def get_next_node_name_def edge_taken_def plain_ext_def tool_none_def
        State_default_def MAX_STEPS_def Let_def)

end
